theory Spec2Isabelle
  imports Main "HOL-Library.Word"
begin

unbundle bit_operations_syntax

section \<open>Common vocabulary of the two HID++ touch drivers\<close>

type_synonym u8 = "8 word"
type_synonym u16 = "16 word"

text \<open>
  Both drivers talk to the input layer through a handful of calls. The model keeps
  the sequence of calls a function makes, in order, as its output. Event values are
  C \<open>int\<close>s; every value the drivers pass fits 17 bits, so they are modelled as
  unbounded integers.
\<close>

datatype ev_type = EV_ABS | EV_KEY

datatype ev_code =
    ABS_MT_TRACKING_ID | ABS_MT_POSITION_X | ABS_MT_POSITION_Y | ABS_MT_PRESSURE
  | BTN_TOOL_FINGER | BTN_TOOL_DOUBLETAP | BTN_TOOL_TRIPLETAP | BTN_TOOL_QUADTAP
  | BTN_LEFT | BTN_RIGHT | BTN_MIDDLE

datatype mt_tool = MT_TOOL_FINGER

datatype input_call =
    Input_Mt_Slot int
  | Input_Event ev_type ev_code int
  | Input_Report_Key ev_code bool
  | Input_Mt_Report_Slot_State mt_tool bool
  | Input_Mt_Report_Pointer_Emulation bool
  | Input_Sync

text \<open>
  What C leaves undefined is a value of the model: a read past the end of the
  report buffer, a shift by the width of \<open>int\<close> or more, an index outside the
  slot array.
\<close>

datatype c_fault = Read_Out_Of_Bounds | Shift_Too_Wide | Slot_Out_Of_Bounds int

subsection \<open>Reading a sequence of input calls\<close>

text \<open>
  Modelled from the spec: the input layer that receives the calls is not among the
  sources. Its multi-touch vocabulary is per slot (position and pressure per slot,
  assign and clear a tracking id): \<open>input_mt_slot\<close> selects the slot that the
  \<open>EV_ABS\<close> events after it are about, and an \<open>ABS_MT_TRACKING_ID\<close> event gives the
  selected slot a tracking id, \<open>-1\<close> meaning no contact. The functions below read
  a sequence of calls this way; they are used to state properties, the drivers do
  not call them.
\<close>

definition tracking_id_of :: "input_call \<Rightarrow> int option" where
  "tracking_id_of c =
     (case c of
        Input_Event t code v \<Rightarrow> (if t = EV_ABS \<and> code = ABS_MT_TRACKING_ID then Some v else None)
      | _ \<Rightarrow> None)"

text \<open>The \<open>EV_ABS\<close> events about slot \<open>i\<close>, in order; \<open>cur\<close> is the slot selected before.\<close>

fun slot_calls :: "int \<Rightarrow> int \<Rightarrow> input_call list \<Rightarrow> input_call list" where
  "slot_calls i cur [] = []"
| "slot_calls i cur (c # cs) =
     (case c of
        Input_Mt_Slot j \<Rightarrow> slot_calls i j cs
      | Input_Event t code v \<Rightarrow>
          (if t = EV_ABS \<and> cur = i then c # slot_calls i cur cs else slot_calls i cur cs)
      | _ \<Rightarrow> slot_calls i cur cs)"

text \<open>The tracking ids given to contacts, in order: the tracking-id events other than \<open>-1\<close>.\<close>

fun allocated_ids :: "input_call list \<Rightarrow> int list" where
  "allocated_ids [] = []"
| "allocated_ids (c # cs) =
     (case tracking_id_of c of
        Some v \<Rightarrow> (if v = - 1 then allocated_ids cs else v # allocated_ids cs)
      | None \<Rightarrow> allocated_ids cs)"

text \<open>The selected slot and the tracking id of every slot, as the calls set them.\<close>

record mt_sink =
  sink_slot :: int
  sink_tracking :: "int \<Rightarrow> int"

definition mt_sink_init :: mt_sink where
  "mt_sink_init = \<lparr> sink_slot = 0, sink_tracking = (\<lambda>k. - 1) \<rparr>"

definition mt_sink_call :: "mt_sink \<Rightarrow> input_call \<Rightarrow> mt_sink" where
  "mt_sink_call s c =
     (case c of
        Input_Mt_Slot j \<Rightarrow> s\<lparr>sink_slot := j\<rparr>
      | _ \<Rightarrow> (case tracking_id_of c of
                Some v \<Rightarrow> s\<lparr>sink_tracking := (sink_tracking s)(sink_slot s := v)\<rparr>
              | None \<Rightarrow> s))"

text \<open>
  \<open>ids_stable\<close>: along the calls, a tracking id is only ever given to a slot that
  has none at that moment, so a slot keeps its id until a \<open>-1\<close> event releases it.
\<close>

fun ids_stable :: "mt_sink \<Rightarrow> input_call list \<Rightarrow> bool" where
  "ids_stable s [] = True"
| "ids_stable s (c # cs) =
     ((case tracking_id_of c of
         Some v \<Rightarrow> v = - 1 \<or> sink_tracking s (sink_slot s) = - 1
       | None \<Rightarrow> True) \<and>
      ids_stable (mt_sink_call s c) cs)"

text \<open>The tracking ids of the slots \<open>0, ..., n - 1\<close> that have a contact.\<close>

definition active_ids :: "nat \<Rightarrow> mt_sink \<Rightarrow> int list" where
  "active_ids n s = filter (\<lambda>v. v \<noteq> - 1) (map (\<lambda>i. sink_tracking s (int i)) [0..<n])"

text \<open>\<open>ids_unique\<close>: before, between and after the calls, no two of these ids are equal.\<close>

fun ids_unique :: "nat \<Rightarrow> mt_sink \<Rightarrow> input_call list \<Rightarrow> bool" where
  "ids_unique n s [] = distinct (active_ids n s)"
| "ids_unique n s (c # cs) = (distinct (active_ids n s) \<and> ids_unique n (mt_sink_call s c) cs)"

section \<open>hid-logitech-tm.c: the touch mouse\<close>

record tm_touchpad_info =
  x_size :: u16
  y_size :: u16
  resolution :: u16
  origin_position :: u8
  max_fingers :: u8
  max_width :: u8

definition DEPRESSOR_NONE :: u8 where "DEPRESSOR_NONE = 0"
definition DEPRESSOR_MOUSE :: u8 where "DEPRESSOR_MOUSE = 1"
definition DEPRESSOR_RAWPTS :: u8 where "DEPRESSOR_RAWPTS = 2"
definition DEPRESSOR_1B03 :: u8 where "DEPRESSOR_1B03 = 3"

record tm_data =
  tp_info :: tm_touchpad_info
  mt_feature_index :: u8
  feature_1b03 :: u8
  next_tracking_id :: u16
  prev_slots_used :: u8
  button_depressor :: "u8 list"
  ignore_mouse_report_buttons :: bool
  hid_hw_started :: bool
  in_raw_mode :: bool
  raw_switch_requested :: bool

definition ORIGIN_LOWER_LEFT :: u8 where "ORIGIN_LOWER_LEFT = 1"
definition ORIGIN_LOWER_RIGHT :: u8 where "ORIGIN_LOWER_RIGHT = 2"
definition ORIGIN_UPPER_LEFT :: u8 where "ORIGIN_UPPER_LEFT = 3"
definition ORIGIN_UPPER_RIGHT :: u8 where "ORIGIN_UPPER_RIGHT = 4"

text \<open>
  The state \<open>tm_probe\<close> leaves behind: \<open>kzalloc\<close> zeroes the structure, then
  \<open>prev_slots_used = 0\<close>, \<open>next_tracking_id = 1\<close>, and the mouse-report buttons are
  ignored on the T620 (the argument \<open>t620\<close> is \<open>hdev->product ==
  UNIFYING_DEVICE_ID_TOUCH_MOUSE_T620\<close>). \<open>in_raw_mode\<close> and \<open>hid_hw_started\<close> are
  set on the successful path.
\<close>

definition tm_probe :: "bool \<Rightarrow> tm_data" where
  "tm_probe t620 =
     \<lparr> tp_info = \<lparr> x_size = 0, y_size = 0, resolution = 0, origin_position = 0,
                   max_fingers = 0, max_width = 0 \<rparr>,
       mt_feature_index = 0, feature_1b03 = 0,
       next_tracking_id = 1, prev_slots_used = 0,
       button_depressor = [0, 0, 0],
       ignore_mouse_report_buttons = t620,
       hid_hw_started = True, in_raw_mode = True, raw_switch_requested = False \<rparr>"

subsection \<open>emit_fingers\<close>

text \<open>
  One pass of the \<open>for\<close> loop of \<open>emit_fingers\<close>, for slot \<open>i\<close>: the record is
  \<open>rec = bytes + 4 * i\<close>. It takes the driver data and \<open>slots_used\<close> and returns
  both, updated, with the input calls of this pass. \<open>slot_mask\<close> is the \<open>u8\<close>
  truncation of \<open>1 << i\<close>, which is 0 from \<open>i = 8\<close> on.
\<close>

definition emit_finger ::
  "bool \<Rightarrow> bool \<Rightarrow> u8 list \<Rightarrow> nat \<Rightarrow> tm_data \<Rightarrow> u8 \<Rightarrow> tm_data \<times> u8 \<times> input_call list" where
  "emit_finger swap_x swap_y bytes i fd slots_used =
     (let rec0 = bytes ! (4 * i); rec1 = bytes ! (4 * i + 1);
          rec2 = bytes ! (4 * i + 2); rec3 = bytes ! (4 * i + 3);
          x_pos = push_bit 4 (uint rec0) OR uint (rec2 AND 0xf);
          y_pos = push_bit 4 (uint rec1) OR uint (drop_bit 4 rec2);
          width_x = uint (drop_bit 4 rec3) + 1;
          width_y = uint (rec3 AND 0xf) + 1;
          slot_mask = (push_bit i 1 :: u8)
      in if rec0 = 0xff \<and> rec1 = 0xff \<and> rec2 = 0xff \<and> rec3 = 0xff
         then (fd, slots_used,
               [Input_Mt_Slot (int i), Input_Event EV_ABS ABS_MT_TRACKING_ID (- 1)])
         else
           (let new_finger = (prev_slots_used fd AND slot_mask = 0);
                fd' = (if new_finger
                       then fd\<lparr>next_tracking_id :=
                                 (if next_tracking_id fd + 1 = 0xffff then 1
                                  else next_tracking_id fd + 1)\<rparr>
                       else fd);
                x_pos' = (if swap_x then uint (x_size (tp_info fd)) - x_pos else x_pos);
                y_pos' = (if swap_y then uint (y_size (tp_info fd)) - y_pos else y_pos)
            in (fd', slots_used OR slot_mask,
                [Input_Mt_Slot (int i)] @
                (if new_finger
                 then [Input_Event EV_ABS ABS_MT_TRACKING_ID (uint (next_tracking_id fd))]
                 else []) @
                [Input_Event EV_ABS ABS_MT_POSITION_X x_pos',
                 Input_Event EV_ABS ABS_MT_POSITION_Y y_pos',
                 Input_Event EV_ABS ABS_MT_PRESSURE
                   (min (max 30 (width_x * width_y * 3)) 255)])))"

text \<open>The loop \<open>for (i = 0; i < n; i++)\<close>: passes \<open>0, ..., n - 1\<close> in this order.\<close>

primrec emit_fingers_loop ::
  "bool \<Rightarrow> bool \<Rightarrow> u8 list \<Rightarrow> nat \<Rightarrow> tm_data \<Rightarrow> tm_data \<times> u8 \<times> input_call list" where
  "emit_fingers_loop swap_x swap_y bytes 0 fd = (fd, 0, [])"
| "emit_fingers_loop swap_x swap_y bytes (Suc n) fd =
     (case emit_fingers_loop swap_x swap_y bytes n fd of (fd1, slots_used, out) \<Rightarrow>
        (case emit_finger swap_x swap_y bytes n fd1 slots_used of (fd2, slots_used', calls) \<Rightarrow>
           (fd2, slots_used', out @ calls)))"

text \<open>
  \<open>emit_fingers\<close>. Every pass reads its four bytes before it looks at them, so the
  function reads \<open>bytes[0 .. 4 * max_fingers - 1]\<close> whatever the content; the C code
  does not check the length, and a shorter buffer is the fault \<open>Read_Out_Of_Bounds\<close>
  here. \<open>1 << i\<close> is an \<open>int\<close> shift, undefined from \<open>i = 32\<close> on.
\<close>

definition emit_fingers :: "tm_data \<Rightarrow> u8 list \<Rightarrow> c_fault + (tm_data \<times> input_call list)" where
  "emit_fingers fd bytes =
     (let n = unat (max_fingers (tp_info fd));
          swap_x = (origin_position (tp_info fd) = ORIGIN_LOWER_RIGHT \<or>
                    origin_position (tp_info fd) = ORIGIN_UPPER_RIGHT);
          swap_y = (origin_position (tp_info fd) = ORIGIN_LOWER_LEFT \<or>
                    origin_position (tp_info fd) = ORIGIN_LOWER_RIGHT)
      in if length bytes < 4 * n then Inl Read_Out_Of_Bounds
         else if 32 < n then Inl Shift_Too_Wide
         else
           (case emit_fingers_loop swap_x swap_y bytes n fd of (fd', slots_used, out) \<Rightarrow>
              Inr (fd'\<lparr>prev_slots_used := slots_used\<rparr>,
                   out @
                   [Input_Event EV_KEY BTN_TOOL_FINGER (if slots_used = 1 then 1 else 0),
                    Input_Event EV_KEY BTN_TOOL_DOUBLETAP (if slots_used = 2 then 1 else 0),
                    Input_Event EV_KEY BTN_TOOL_TRIPLETAP (if slots_used = 3 then 1 else 0),
                    Input_Event EV_KEY BTN_TOOL_QUADTAP (if slots_used = 4 then 1 else 0)])))"


text \<open>A sequence of raw-touch frames, one \<open>emit_fingers\<close> call each; a fault stops it.\<close>

fun emit_frames :: "tm_data \<Rightarrow> u8 list list \<Rightarrow> c_fault + (tm_data \<times> input_call list)" where
  "emit_frames fd [] = Inr (fd, [])"
| "emit_frames fd (bytes # rest) =
     (case emit_fingers fd bytes of
        Inl e \<Rightarrow> Inl e
      | Inr (fd1, out1) \<Rightarrow>
          (case emit_frames fd1 rest of
             Inl e \<Rightarrow> Inl e
           | Inr (fd2, out2) \<Rightarrow> Inr (fd2, out1 @ out2)))"

subsection \<open>emit_buttons\<close>

text \<open>
  The first block's loop \<open>for (i = idx_left; i <= idx_middle; i++)\<close> over the
  buttons of a mouse report; \<open>b1\<close> is \<open>bytes[1]\<close> and \<open>mask\<close> is \<open>1 << i\<close>.
\<close>

primrec mouse_report_buttons :: "u8 \<Rightarrow> nat \<Rightarrow> u8 list \<Rightarrow> u8 list" where
  "mouse_report_buttons b1 0 dep = dep"
| "mouse_report_buttons b1 (Suc i) dep =
     (let dep1 = mouse_report_buttons b1 i dep; mask = (push_bit i 1 :: u8)
      in if dep1 ! i = 0 \<and> b1 AND mask \<noteq> 0 then dep1[i := DEPRESSOR_MOUSE]
         else if dep1 ! i = DEPRESSOR_MOUSE \<and> b1 AND mask = 0 then dep1[i := DEPRESSOR_NONE]
         else dep1)"

text \<open>
  \<open>emit_buttons\<close>. \<open>bytes\<close> is the whole \<open>struct hidpp_report\<close> seen as bytes: a
  fixed-size structure of two header bytes, \<open>sub_id\<close>, \<open>reg_address\<close> and the
  parameters, so \<open>bytes[0 .. 5]\<close> always exist in C; a list too short to be such a
  structure is a fault of the model. \<open>button_depressor\<close> has the three entries
  \<open>idx_left = 0\<close>, 1 and \<open>idx_middle = 2\<close>.
\<close>

definition emit_buttons :: "tm_data \<Rightarrow> u8 list \<Rightarrow> c_fault + (tm_data \<times> input_call list)" where
  "emit_buttons fd bytes =
     (if length bytes < 6 then Inl Read_Out_Of_Bounds
      else
        (let dep1 = (if bytes ! 0 = 0x2 \<and> \<not> ignore_mouse_report_buttons fd
                     then mouse_report_buttons (bytes ! 1) 3 (button_depressor fd)
                     else button_depressor fd);
             dep2 = (if bytes ! 0 = 0x11 \<and> bytes ! 2 = feature_1b03 fd
                     then (if dep1 ! 2 = 0 \<and> bytes ! 5 \<noteq> 0 then dep1[2 := DEPRESSOR_1B03]
                           else if dep1 ! 2 = DEPRESSOR_1B03 \<and> bytes ! 5 = 0
                           then dep1[2 := DEPRESSOR_NONE]
                           else dep1)
                     else dep1);
             dep3 = (if bytes ! 0 = 0x11 \<and> bytes ! 2 = mt_feature_index fd \<and>
                        drop_bit 4 (bytes ! 3) = 1
                     then (if dep2 ! 0 = 0 \<and> bytes ! 4 AND 2 \<noteq> 0
                           then dep2[0 := DEPRESSOR_RAWPTS]
                           else if dep2 ! 0 = DEPRESSOR_RAWPTS \<and> bytes ! 4 AND 2 = 0
                           then dep2[0 := DEPRESSOR_NONE]
                           else dep2)
                     else dep2)
         in Inr (fd\<lparr>button_depressor := dep3\<rparr>,
                 [Input_Report_Key BTN_LEFT (dep3 ! 0 \<noteq> DEPRESSOR_NONE),
                  Input_Report_Key BTN_RIGHT (dep3 ! 1 \<noteq> DEPRESSOR_NONE),
                  Input_Report_Key BTN_MIDDLE (dep3 ! 2 \<noteq> DEPRESSOR_NONE)])))"

text \<open>A sequence of incoming reports, one \<open>emit_buttons\<close> call each.\<close>

fun emit_buttons_seq :: "tm_data \<Rightarrow> u8 list list \<Rightarrow> c_fault + (tm_data \<times> input_call list)" where
  "emit_buttons_seq fd [] = Inr (fd, [])"
| "emit_buttons_seq fd (bytes # rest) =
     (case emit_buttons fd bytes of
        Inl e \<Rightarrow> Inl e
      | Inr (fd1, out1) \<Rightarrow>
          (case emit_buttons_seq fd1 rest of
             Inl e \<Rightarrow> Inl e
           | Inr (fd2, out2) \<Rightarrow> Inr (fd2, out1 @ out2)))"


section \<open>hid-logitech-wtp.c: the wireless touchpad\<close>

text \<open>
  The structures of the driver. Field names that would clash with a variable or
  with a field of the touch mouse carry the structure's name. An array of two
  (\<open>fingers[2]\<close>, \<open>touches[2]\<close>) is a pair: the code only writes \<open>[0]\<close> and
  \<open>[1]\<close>.
\<close>

record hidpp_touchpad_raw_xy_finger =
  contact_type :: u8
  contact_status :: u8
  finger_x :: u16
  finger_y :: u16
  finger_z :: u8
  finger_area :: u8
  finger_id :: u8

record hidpp_touchpad_raw_xy =
  raw_timestamp :: u16
  fingers :: "hidpp_touchpad_raw_xy_finger \<times> hidpp_touchpad_raw_xy_finger"
  spurious_flag :: u8
  end_of_frame :: u8
  finger_count :: u8

record wtp_mt_slot =
  touch_state :: bool
  seen_in_this_frame :: bool

record wtp_data =
  wtp_x_size :: u16
  wtp_y_size :: u16
  p_range :: u8
  area_range :: u8
  wtp_finger_count :: u8
  wtp_mt_feature_index :: u8
  button_feature_index :: u8
  maxcontacts :: u8
  slots :: "wtp_mt_slot list"

record touch_hidpp_report =
  x_m :: u8
  x_l :: u8
  y_m :: u8
  y_l :: u8
  touch_z :: u8
  touch_area :: u8
  touch_id :: u8

record dual_touch_hidpp_report =
  report_id :: u8
  device_index :: u8
  feature_index :: u8
  broadcast_event :: u8
  timestamp :: u16
  touches :: "touch_hidpp_report \<times> touch_hidpp_report"

text \<open>
  The state \<open>wtp_probe\<close> leaves behind: \<open>kzalloc\<close> zeroes the structure, with its
  five slots, then the two feature indices and \<open>maxcontacts = 5\<close> are set.
\<close>

definition wtp_probe :: wtp_data where
  "wtp_probe =
     \<lparr> wtp_x_size = 0, wtp_y_size = 0, p_range = 0, area_range = 0, wtp_finger_count = 0,
       wtp_mt_feature_index = 0x0f, button_feature_index = 0x02, maxcontacts = 5,
       slots = replicate 5 \<lparr> touch_state = False, seen_in_this_frame = False \<rparr> \<rparr>"

text \<open>
  \<open>wtp_touch_event\<close>. \<open>slot = finger_id - 1\<close> is an \<open>int\<close> and indexes
  \<open>fd->slots\<close> unchecked; outside the array (whose size is the length of the list)
  the C code writes to foreign memory, which is the fault \<open>Slot_Out_Of_Bounds\<close>
  here. \<open>touch_state\<close> is a \<open>bool\<close>: it is set when \<open>contact_status\<close> is not 0.
\<close>

definition wtp_touch_event ::
  "wtp_data \<Rightarrow> hidpp_touchpad_raw_xy_finger \<Rightarrow> c_fault + (wtp_data \<times> input_call list)" where
  "wtp_touch_event fd touch_report =
     (let slot = uint (finger_id touch_report) - 1
      in if slot < 0 \<or> int (length (slots fd)) \<le> slot then Inl (Slot_Out_Of_Bounds slot)
         else Inr (fd\<lparr>slots := (slots fd)[nat slot :=
                         \<lparr> touch_state = (contact_status touch_report \<noteq> 0),
                           seen_in_this_frame = True \<rparr>]\<rparr>,
                   [Input_Mt_Slot slot,
                    Input_Mt_Report_Slot_State MT_TOOL_FINGER (contact_status touch_report \<noteq> 0)] @
                   (if contact_status touch_report \<noteq> 0
                    then [Input_Event EV_ABS ABS_MT_POSITION_X (uint (finger_x touch_report)),
                          Input_Event EV_ABS ABS_MT_POSITION_Y (uint (finger_y touch_report)),
                          Input_Event EV_ABS ABS_MT_PRESSURE (uint (finger_area touch_report))]
                    else [])))"

text \<open>
  The first block of \<open>wtp_touchpad_raw_xy_event\<close>:
  \<open>if (finger_count) { first touch; if (...) second touch }\<close>.
\<close>

definition wtp_touch_events ::
  "wtp_data \<Rightarrow> hidpp_touchpad_raw_xy \<Rightarrow> c_fault + (wtp_data \<times> input_call list)" where
  "wtp_touch_events fd raw =
     (let fc = uint (finger_count raw); eof = (end_of_frame raw \<noteq> 0)
      in if fc \<noteq> 0
         then (case wtp_touch_event fd (fst (fingers raw)) of
                 Inl e \<Rightarrow> Inl e
               | Inr (fd1, out1) \<Rightarrow>
                   if (eof \<and> fc = 4) \<or> (\<not> eof \<and> 2 \<le> fc)
                   then (case wtp_touch_event fd1 (snd (fingers raw)) of
                           Inl e \<Rightarrow> Inl e
                         | Inr (fd2, out2) \<Rightarrow> Inr (fd2, out1 @ out2))
                   else Inr (fd1, out1))
         else Inr (fd, []))"

text \<open>
  The loop \<open>for (i = 0; i < ARRAY_SIZE(fd->slots); i++)\<close> of the second block:
  a slot not seen in this frame and still touched is released, and every slot's
  \<open>seen_in_this_frame\<close> is cleared.
\<close>

primrec wtp_release_loop :: "nat \<Rightarrow> wtp_data \<Rightarrow> wtp_data \<times> input_call list" where
  "wtp_release_loop 0 fd = (fd, [])"
| "wtp_release_loop (Suc i) fd =
     (case wtp_release_loop i fd of (fd1, out) \<Rightarrow>
        (let stale = (\<not> seen_in_this_frame (slots fd1 ! i) \<and> touch_state (slots fd1 ! i));
             fd2 = (if stale
                    then fd1\<lparr>slots := (slots fd1)[i := (slots fd1 ! i)\<lparr>touch_state := False\<rparr>]\<rparr>
                    else fd1);
             fd3 = fd2\<lparr>slots := (slots fd2)[i := (slots fd2 ! i)\<lparr>seen_in_this_frame := False\<rparr>]\<rparr>
         in (fd3,
             out @ (if stale
                    then [Input_Mt_Slot (int i), Input_Mt_Report_Slot_State MT_TOOL_FINGER False]
                    else []))))"

text \<open>
  \<open>wtp_touchpad_raw_xy_event\<close>; \<open>initialized\<close> is \<open>hidpp_dev->initialized\<close>. The
  result carries the function's return value.
\<close>

definition wtp_touchpad_raw_xy_event ::
  "bool \<Rightarrow> wtp_data \<Rightarrow> hidpp_touchpad_raw_xy \<Rightarrow> c_fault + (int \<times> wtp_data \<times> input_call list)" where
  "wtp_touchpad_raw_xy_event initialized fd raw =
     (let fc = uint (finger_count raw); eof = (end_of_frame raw \<noteq> 0)
      in if \<not> initialized then Inr (0, fd, [])
         else (case wtp_touch_events fd raw of
                 Inl e \<Rightarrow> Inl e
               | Inr (fd1, out1) \<Rightarrow>
                   if eof \<or> fc \<le> 2
                   then (case wtp_release_loop (length (slots fd1)) fd1 of (fd2, out2) \<Rightarrow>
                           Inr (1, fd2,
                                out1 @ out2 @
                                [Input_Mt_Report_Pointer_Emulation True,
                                 Input_Report_Key BTN_TOOL_FINGER (fc = 1),
                                 Input_Report_Key BTN_TOOL_DOUBLETAP (fc = 2),
                                 Input_Report_Key BTN_TOOL_TRIPLETAP (fc = 3),
                                 Input_Report_Key BTN_TOOL_QUADTAP (fc = 4),
                                 Input_Sync]))
                   else Inr (1, fd1, out1)))"

text \<open>
  \<open>hidpp_touchpad_touch_event\<close> fills \<open>*finger\<close> from a 7-byte touch record.
  \<open>u8 x_m = touch_report->x_m << 2\<close> drops the two top bits.
\<close>

definition hidpp_touchpad_touch_event ::
  "touch_hidpp_report \<Rightarrow> hidpp_touchpad_raw_xy_finger \<Rightarrow> hidpp_touchpad_raw_xy_finger" where
  "hidpp_touchpad_touch_event touch_report finger =
     (let xm = (push_bit 2 (x_m touch_report) :: u8);
          ym = (push_bit 2 (y_m touch_report) :: u8)
      in finger\<lparr> contact_type := drop_bit 6 (x_m touch_report),
                 finger_x := push_bit 6 (ucast xm) OR ucast (x_l touch_report),
                 contact_status := drop_bit 6 (y_m touch_report),
                 finger_y := push_bit 6 (ucast ym) OR ucast (y_l touch_report),
                 finger_id := drop_bit 4 (touch_id touch_report),
                 finger_z := touch_z touch_report,
                 finger_area := touch_area touch_report \<rparr>)"

text \<open>
  The decoding part of \<open>hidpp_touchpad_raw_xy_event\<close>, up to the call of
  \<open>wtp_touchpad_raw_xy_event\<close>. \<open>raw_xy\<close> is a local variable that the function
  does not initialise: its first content is the argument \<open>raw_xy\<close>, any value.
\<close>

definition hidpp_touchpad_raw_xy_decode ::
  "hidpp_touchpad_raw_xy \<Rightarrow> dual_touch_hidpp_report \<Rightarrow> hidpp_touchpad_raw_xy" where
  "hidpp_touchpad_raw_xy_decode raw_xy dual_touch_report =
     (let raw1 = raw_xy\<lparr> end_of_frame := touch_id (fst (touches dual_touch_report)) AND 0x01,
                         spurious_flag :=
                           drop_bit 1 (touch_id (fst (touches dual_touch_report))) AND 0x01,
                         finger_count := touch_id (snd (touches dual_touch_report)) AND 0x0f \<rparr>
      in if finger_count raw1 \<noteq> 0
         then (let raw2 = raw1\<lparr> fingers :=
                            (hidpp_touchpad_touch_event (fst (touches dual_touch_report))
                               (fst (fingers raw1)),
                             snd (fingers raw1)) \<rparr>
               in if (end_of_frame raw2 \<noteq> 0 \<and> finger_count raw2 = 4) \<or>
                     (\<not> end_of_frame raw2 \<noteq> 0 \<and> 2 \<le> finger_count raw2)
                  then raw2\<lparr> fingers :=
                         (fst (fingers raw2),
                          hidpp_touchpad_touch_event (snd (touches dual_touch_report))
                            (snd (fingers raw2))) \<rparr>
                  else raw2)
         else raw1)"

definition hidpp_touchpad_raw_xy_event ::
  "bool \<Rightarrow> wtp_data \<Rightarrow> hidpp_touchpad_raw_xy \<Rightarrow> dual_touch_hidpp_report \<Rightarrow>
   c_fault + (int \<times> wtp_data \<times> input_call list)" where
  "hidpp_touchpad_raw_xy_event initialized fd raw_xy dual_touch_report =
     wtp_touchpad_raw_xy_event initialized fd
       (hidpp_touchpad_raw_xy_decode raw_xy dual_touch_report)"


section \<open>Notions used in the statements\<close>

text \<open>Record \<open>i\<close> of a raw-touch report is the sentinel \<open>{0xFF, 0xFF, 0xFF, 0xFF}\<close>.\<close>

definition sentinel_rec :: "u8 list \<Rightarrow> nat \<Rightarrow> bool" where
  "sentinel_rec bytes i =
     (bytes ! (4 * i) = 0xff \<and> bytes ! (4 * i + 1) = 0xff \<and>
      bytes ! (4 * i + 2) = 0xff \<and> bytes ! (4 * i + 3) = 0xff)"

text \<open>The coordinates of record \<open>i\<close> as decoded, before any flip.\<close>

definition rec_x_pos :: "u8 list \<Rightarrow> nat \<Rightarrow> int" where
  "rec_x_pos bytes i = push_bit 4 (uint (bytes ! (4 * i))) OR uint (bytes ! (4 * i + 2) AND 0xf)"

definition rec_y_pos :: "u8 list \<Rightarrow> nat \<Rightarrow> int" where
  "rec_y_pos bytes i = push_bit 4 (uint (bytes ! (4 * i + 1))) OR uint (drop_bit 4 (bytes ! (4 * i + 2)))"

text \<open>The pressure \<open>emit_fingers\<close> makes up from the widths of record \<open>i\<close>.\<close>

definition rec_pressure :: "u8 list \<Rightarrow> nat \<Rightarrow> int" where
  "rec_pressure bytes i =
     min (max 30 ((uint (drop_bit 4 (bytes ! (4 * i + 3))) + 1) *
                  (uint (bytes ! (4 * i + 3) AND 0xf) + 1) * 3)) 255"

text \<open>The driver data at the start of pass \<open>i\<close> of the loop of \<open>emit_fingers\<close>.\<close>

definition tm_data_at :: "tm_data \<Rightarrow> u8 list \<Rightarrow> nat \<Rightarrow> tm_data" where
  "tm_data_at fd bytes i =
     fst (emit_fingers_loop
            (origin_position (tp_info fd) = ORIGIN_LOWER_RIGHT \<or>
             origin_position (tp_info fd) = ORIGIN_UPPER_RIGHT)
            (origin_position (tp_info fd) = ORIGIN_LOWER_LEFT \<or>
             origin_position (tp_info fd) = ORIGIN_LOWER_RIGHT) bytes i fd)"

text \<open>The counter step of \<open>emit_fingers\<close>: increment, and take 1 when that gives \<open>0xffff\<close>.\<close>

definition next_id :: "u16 \<Rightarrow> u16" where
  "next_id v = (if v + 1 = 0xffff then 1 else v + 1)"

text \<open>
  The tracking-id counter of the specification, in its words: it counts up within
  1 .. 0xFFFE and goes from 0xFFFE to 1. \<open>counter_ids v k\<close> are the next \<open>k\<close>
  ids from \<open>v\<close> on.
\<close>

definition counter_next :: "int \<Rightarrow> int" where
  "counter_next v = (if v = 0xFFFE then 1 else v + 1)"

primrec counter_ids :: "int \<Rightarrow> nat \<Rightarrow> int list" where
  "counter_ids v 0 = []"
| "counter_ids v (Suc k) = v # counter_ids (counter_next v) k"

text \<open>
  The driver and the reading of its calls run together over a sequence of frames:
  the driver data and the slots' tracking ids after the last frame.
\<close>

fun frames_sink :: "tm_data \<Rightarrow> mt_sink \<Rightarrow> u8 list list \<Rightarrow> c_fault + (tm_data \<times> mt_sink)" where
  "frames_sink fd s [] = Inr (fd, s)"
| "frames_sink fd s (bytes # rest) =
     (case emit_fingers fd bytes of
        Inl e \<Rightarrow> Inl e
      | Inr (fd1, out1) \<Rightarrow> frames_sink fd1 (foldl mt_sink_call s out1) rest)"

text \<open>The tracking ids of the slots with a contact after a sequence of frames.\<close>

definition frames_active_ids :: "tm_data \<Rightarrow> u8 list list \<Rightarrow> c_fault + int list" where
  "frames_active_ids fd frames =
     (case frames_sink fd mt_sink_init frames of
        Inl e \<Rightarrow> Inl e
      | Inr (fd', s) \<Rightarrow> Inr (active_ids (unat (max_fingers (tp_info fd))) s))"

text \<open>
  The values of the tracking-id events about slot \<open>i\<close> over a sequence of frames,
  in order, \<open>-1\<close> included.
\<close>

definition frames_slot_tracking :: "tm_data \<Rightarrow> u8 list list \<Rightarrow> nat \<Rightarrow> c_fault + int list" where
  "frames_slot_tracking fd frames i =
     (case emit_frames fd frames of
        Inl e \<Rightarrow> Inl e
      | Inr (fd', out) \<Rightarrow> Inr (List.map_filter tracking_id_of (slot_calls (int i) 0 out)))"

text \<open>Whether the calls of a sequence of frames, read from the start, keep the ids stable.\<close>

definition frames_ids_stable :: "tm_data \<Rightarrow> u8 list list \<Rightarrow> c_fault + bool" where
  "frames_ids_stable fd frames =
     (case emit_frames fd frames of
        Inl e \<Rightarrow> Inl e
      | Inr (fd', out) \<Rightarrow> Inr (ids_stable mt_sink_init out))"

text \<open>
  What a report says about button \<open>i\<close> (0 left, 1 right, 2 middle): the kind of
  report that speaks about this button and whether it shows the button down;
  \<open>None\<close> when the report says nothing about it. A mouse report (id 2, unless
  ignored on this device) speaks about all three buttons, an event of feature 1b03
  about the middle button, a raw-points event with function 1 about the left one.
\<close>

definition button_source :: "tm_data \<Rightarrow> u8 list \<Rightarrow> nat \<Rightarrow> (u8 \<times> bool) option" where
  "button_source fd bytes i =
     (if bytes ! 0 = 0x2 \<and> \<not> ignore_mouse_report_buttons fd \<and> i < 3
      then Some (DEPRESSOR_MOUSE, bytes ! 1 AND push_bit i 1 \<noteq> 0)
      else if bytes ! 0 = 0x11 \<and> bytes ! 2 = feature_1b03 fd \<and> i = 2
      then Some (DEPRESSOR_1B03, bytes ! 5 \<noteq> 0)
      else if bytes ! 0 = 0x11 \<and> bytes ! 2 = mt_feature_index fd \<and>
              drop_bit 4 (bytes ! 3) = 1 \<and> i = 0
      then Some (DEPRESSOR_RAWPTS, bytes ! 4 AND 2 \<noteq> 0)
      else None)"

text \<open>
  The rule of the specification for one button, in its words: a report kind sets
  the depressor to itself only when it is \<open>None\<close>, and clears it only when it is
  that same kind.
\<close>

definition arbiter :: "u8 \<Rightarrow> (u8 \<times> bool) option \<Rightarrow> u8" where
  "arbiter d obs =
     (case obs of
        None \<Rightarrow> d
      | Some (k, down) \<Rightarrow>
          if d = DEPRESSOR_NONE \<and> down then k
          else if d = k \<and> \<not> down then DEPRESSOR_NONE
          else d)"

text \<open>
  A slot of the touchpad that is still touched and has not been seen in the
  current frame.
\<close>

definition stale_slot :: "wtp_data \<Rightarrow> nat \<Rightarrow> bool" where
  "stale_slot fd j = (\<not> seen_in_this_frame (slots fd ! j) \<and> touch_state (slots fd ! j))"

text \<open>
  What the release loop makes of a slot: it stays touched only if it was seen,
  and it is no longer marked as seen.
\<close>

definition released :: "wtp_mt_slot \<Rightarrow> wtp_mt_slot" where
  "released s =
     \<lparr> touch_state = (touch_state s \<and> seen_in_this_frame s), seen_in_this_frame = False \<rparr>"

text \<open>
  The condition on the wire bytes of a dual-touch report for its second touch
  record to be used: end-of-frame clear and a finger count of at least 2, or
  end-of-frame set and a finger count of 4.
\<close>

definition second_touch_used :: "dual_touch_hidpp_report \<Rightarrow> bool" where
  "second_touch_used r =
     (let eof = bit (touch_id (fst (touches r))) 0;
          fc = touch_id (snd (touches r)) AND 0x0f
      in (\<not> eof \<and> 2 \<le> fc) \<or> (eof \<and> fc = 4))"

subsection \<open>Invariants of the proofs\<close>

text \<open>
  Between pass \<open>m - 1\<close> and pass \<open>m\<close> of a frame on a device of \<open>n\<close> fingers: a slot
  that holds a tracking id is one of the \<open>n\<close> slots, and its bit is set in
  \<open>slots_used\<close> if its pass is over and in \<open>prev_slots_used\<close> if not.
\<close>

definition coupled :: "nat \<Rightarrow> nat \<Rightarrow> u8 \<Rightarrow> u8 \<Rightarrow> mt_sink \<Rightarrow> bool" where
  "coupled n m su prev s =
     (\<forall>k. sink_tracking s k \<noteq> - 1 \<longrightarrow>
        0 \<le> k \<and> nat k < n \<and> (if nat k < m then bit su (nat k) else bit prev (nat k)))"

text \<open>
  After \<open>c\<close> allocations without a wrap: the ids held are among the first \<open>c\<close>,
  and no two slots hold the same.
\<close>

definition fresh_ids :: "nat \<Rightarrow> mt_sink \<Rightarrow> bool" where
  "fresh_ids c s =
     ((\<forall>k. sink_tracking s k \<noteq> - 1 \<longrightarrow> 1 \<le> sink_tracking s k \<and> sink_tracking s k \<le> int c) \<and>
      (\<forall>j k. j \<noteq> k \<and> sink_tracking s j \<noteq> - 1 \<longrightarrow> sink_tracking s j \<noteq> sink_tracking s k))"

section \<open>Concrete inputs\<close>

text \<open>
  A touch mouse after negotiation: two fingers, origin lower right, a surface of
  1000 by 800.
\<close>

definition tm_two :: tm_data where
  "tm_two = (tm_probe False)
     \<lparr> tp_info := \<lparr> x_size = 1000, y_size = 800, resolution = 0,
                    origin_position = ORIGIN_LOWER_RIGHT, max_fingers = 2, max_width = 0 \<rparr> \<rparr>"

text \<open>Frames for it: both slots touched; slot 0 touched and slot 1 empty.\<close>

definition frame_both :: "u8 list" where
  "frame_both = [1, 2, 3, 4, 5, 6, 7, 8]"

definition frame_first :: "u8 list" where
  "frame_first = [1, 2, 3, 4, 0xff, 0xff, 0xff, 0xff]"

text \<open>The two-finger touch mouse when the counter has reached its last id.\<close>

definition tm_two_last :: tm_data where
  "tm_two_last = tm_two\<lparr> next_tracking_id := 0xFFFE \<rparr>"

text \<open>
  The calls of \<open>emit_fingers\<close> for \<open>frame_both\<close> on this mouse when both slots
  are new and get the tracking ids \<open>a\<close> and \<open>b\<close>.
\<close>

definition frame_both_calls :: "int \<Rightarrow> int \<Rightarrow> input_call list" where
  "frame_both_calls a b =
     [Input_Mt_Slot 0, Input_Event EV_ABS ABS_MT_TRACKING_ID a,
      Input_Event EV_ABS ABS_MT_POSITION_X 981,
      Input_Event EV_ABS ABS_MT_POSITION_Y 768,
      Input_Event EV_ABS ABS_MT_PRESSURE 30,
      Input_Mt_Slot 1, Input_Event EV_ABS ABS_MT_TRACKING_ID b,
      Input_Event EV_ABS ABS_MT_POSITION_X 913,
      Input_Event EV_ABS ABS_MT_POSITION_Y 704,
      Input_Event EV_ABS ABS_MT_PRESSURE 30,
      Input_Event EV_KEY BTN_TOOL_FINGER 0,
      Input_Event EV_KEY BTN_TOOL_DOUBLETAP 0,
      Input_Event EV_KEY BTN_TOOL_TRIPLETAP 1,
      Input_Event EV_KEY BTN_TOOL_QUADTAP 0]"

text \<open>
  A long session on the two-finger mouse: both fingers down, then the second
  finger lifted and put down again 65533 times while the first one stays.
\<close>

definition wrap_frames :: "u8 list list" where
  "wrap_frames = frame_both # concat (replicate 65533 [frame_first, frame_both])"

text \<open>
  A device that announces nine fingers (\<open>max_fingers\<close> is the byte the device
  sends, the driver takes it as it comes), and a frame for it in which all nine
  slots are touched.
\<close>

definition tm_nine :: tm_data where
  "tm_nine = (tm_probe False)
     \<lparr> tp_info := \<lparr> x_size = 1000, y_size = 800, resolution = 0,
                    origin_position = ORIGIN_UPPER_LEFT, max_fingers = 9, max_width = 0 \<rparr> \<rparr>"

definition frame_nine :: "u8 list" where
  "frame_nine = concat (replicate 9 [1, 2, 3, 4])"

text \<open>Reports for the buttons, with raw-points feature index 7 and 1b03 index 9.\<close>

definition tm_buttons :: tm_data where
  "tm_buttons = (tm_probe False)\<lparr> mt_feature_index := 7, feature_1b03 := 9 \<rparr>"

definition mouse_left_down :: "u8 list" where
  "mouse_left_down = [0x2, 0x1, 0, 0, 0, 0]"

definition mouse_all_up :: "u8 list" where
  "mouse_all_up = [0x2, 0x0, 0, 0, 0, 0]"

definition rawpts_left_down :: "u8 list" where
  "rawpts_left_down = [0x11, 0x1, 7, 0x10, 0x2, 0]"

definition rawpts_left_up :: "u8 list" where
  "rawpts_left_up = [0x11, 0x1, 7, 0x10, 0x0, 0]"

text \<open>The touch mouse with the left button held down by a mouse report.\<close>

definition tm_left_by_mouse :: tm_data where
  "tm_left_by_mouse = tm_buttons\<lparr> button_depressor := [DEPRESSOR_MOUSE, 0, 0] \<rparr>"

text \<open>
  Touchpad inputs: a touch record with the given \<open>y_m\<close> byte (its two top bits are
  the contact status) and id byte, a dual-touch report of two records, and zeroed
  locals.
\<close>

definition touch_rec :: "u8 \<Rightarrow> u8 \<Rightarrow> touch_hidpp_report" where
  "touch_rec ym idb =
     \<lparr> x_m = 0xC1, x_l = 5, y_m = ym, y_l = 7, touch_z = 1, touch_area = 9, touch_id = idb \<rparr>"

definition dual_report :: "touch_hidpp_report \<Rightarrow> touch_hidpp_report \<Rightarrow> dual_touch_hidpp_report" where
  "dual_report t0 t1 =
     \<lparr> report_id = 0x11, device_index = 1, feature_index = 0x0f, broadcast_event = 0,
       timestamp = 0, touches = (t0, t1) \<rparr>"

definition finger_zero :: hidpp_touchpad_raw_xy_finger where
  "finger_zero =
     \<lparr> contact_type = 0, contact_status = 0, finger_x = 0, finger_y = 0, finger_z = 0,
       finger_area = 0, finger_id = 0 \<rparr>"

definition raw_xy_zero :: hidpp_touchpad_raw_xy where
  "raw_xy_zero =
     \<lparr> raw_timestamp = 0, fingers = (finger_zero, finger_zero), spurious_flag = 0,
       end_of_frame = 0, finger_count = 0 \<rparr>"

text \<open>The touchpad with one finger down in slot 0, and with that slot released.\<close>

definition wtp_slots :: "bool \<Rightarrow> bool \<Rightarrow> bool \<Rightarrow> bool \<Rightarrow> wtp_data" where
  "wtp_slots t0 s0 t1 s1 =
     wtp_probe\<lparr> slots :=
       [\<lparr> touch_state = t0, seen_in_this_frame = s0 \<rparr>,
        \<lparr> touch_state = t1, seen_in_this_frame = s1 \<rparr>,
        \<lparr> touch_state = False, seen_in_this_frame = False \<rparr>,
        \<lparr> touch_state = False, seen_in_this_frame = False \<rparr>,
        \<lparr> touch_state = False, seen_in_this_frame = False \<rparr>] \<rparr>"

text \<open>
  Reports: finger 1 down, end of frame, one finger; finger 1 lifted (status 0) and
  finger 2 down, not the end of a frame, three fingers; finger 2 down, end of
  frame, one finger.
\<close>

definition report_one_down :: dual_touch_hidpp_report where
  "report_one_down = dual_report (touch_rec 0x42 0x11) (touch_rec 0x42 0x01)"

definition report_lift_mid_frame :: dual_touch_hidpp_report where
  "report_lift_mid_frame = dual_report (touch_rec 0x02 0x10) (touch_rec 0x42 0x23)"

definition report_two_down :: dual_touch_hidpp_report where
  "report_two_down = dual_report (touch_rec 0x42 0x21) (touch_rec 0x42 0x01)"

text \<open>
  Two reports with end-of-frame set and a finger count of 3 that differ in the
  second touch record only (its coordinates, its contact status and the high
  nibble of its id byte).
\<close>

definition report_eof_three :: dual_touch_hidpp_report where
  "report_eof_three = dual_report (touch_rec 0x42 0x11) (touch_rec 0x42 0x23)"

definition report_eof_three_other :: dual_touch_hidpp_report where
  "report_eof_three_other = dual_report (touch_rec 0x42 0x11) (touch_rec 0x02 0x53)"

section \<open>The loop of emit_fingers\<close>

lemma slot_calls_append_slot:
  "slot_calls i cur (a @ Input_Mt_Slot j # b) = slot_calls i cur a @ slot_calls i j b"
  by (induction a arbitrary: cur) (auto split: input_call.splits)

lemma slot_calls_abs_only:
  "\<forall>c \<in> set cs. \<exists>code v. c = Input_Event EV_ABS code v \<Longrightarrow>
   slot_calls i cur cs = (if cur = i then cs else [])"
  by (induction cs) auto

lemma slot_calls_key_only:
  "\<forall>c \<in> set cs. \<exists>code v. c = Input_Event EV_KEY code v \<Longrightarrow> slot_calls i cur cs = []"
  by (induction cs) auto

lemma slot_calls_append_keys:
  "\<forall>c \<in> set b. \<exists>code v. c = Input_Event EV_KEY code v \<Longrightarrow>
   slot_calls i cur (a @ b) = slot_calls i cur a"
  by (induction a arbitrary: cur) (auto split: input_call.splits simp: slot_calls_key_only)

lemma emit_finger_sentinel:
  "sentinel_rec bytes i \<Longrightarrow>
   emit_finger sx sy bytes i fd su =
     (fd, su, [Input_Mt_Slot (int i), Input_Event EV_ABS ABS_MT_TRACKING_ID (- 1)])"
  by (simp add: emit_finger_def sentinel_rec_def Let_def)

lemma emit_finger_contact:
  "\<not> sentinel_rec bytes i \<Longrightarrow>
   emit_finger sx sy bytes i fd su =
     ((if prev_slots_used fd AND push_bit i 1 = 0
       then fd\<lparr>next_tracking_id := next_id (next_tracking_id fd)\<rparr> else fd),
      su OR push_bit i 1,
      Input_Mt_Slot (int i) #
      (if prev_slots_used fd AND push_bit i 1 = 0
       then [Input_Event EV_ABS ABS_MT_TRACKING_ID (uint (next_tracking_id fd))] else []) @
      [Input_Event EV_ABS ABS_MT_POSITION_X
         (if sx then uint (x_size (tp_info fd)) - rec_x_pos bytes i else rec_x_pos bytes i),
       Input_Event EV_ABS ABS_MT_POSITION_Y
         (if sy then uint (y_size (tp_info fd)) - rec_y_pos bytes i else rec_y_pos bytes i),
       Input_Event EV_ABS ABS_MT_PRESSURE (rec_pressure bytes i)])"
  unfolding emit_finger_def sentinel_rec_def Let_def rec_x_pos_def rec_y_pos_def
    rec_pressure_def next_id_def
  by simp

lemma emit_finger_calls_su:
  "snd (snd (emit_finger sx sy bytes i fd su)) = snd (snd (emit_finger sx sy bytes i fd 0))"
  by (cases "sentinel_rec bytes i") (simp_all add: emit_finger_sentinel emit_finger_contact)

lemma emit_finger_shape:
  "emit_finger sx sy bytes i fd su = (fd', su', calls) \<Longrightarrow>
   \<exists>rest. calls = Input_Mt_Slot (int i) # rest \<and>
     (\<forall>c \<in> set rest. \<exists>code v. c = Input_Event EV_ABS code v)"
  by (cases "sentinel_rec bytes i") (auto simp add: emit_finger_sentinel emit_finger_contact)

lemma emit_finger_fd:
  "emit_finger sx sy bytes i fd su = (fd', su', calls) \<Longrightarrow>
   tp_info fd' = tp_info fd \<and> prev_slots_used fd' = prev_slots_used fd"
  by (cases "sentinel_rec bytes i") (auto simp add: emit_finger_sentinel emit_finger_contact)

lemma loop_fd:
  "emit_fingers_loop sx sy bytes n fd = (fd', su, out) \<Longrightarrow>
   tp_info fd' = tp_info fd \<and> prev_slots_used fd' = prev_slots_used fd"
proof (induction n arbitrary: fd' su out)
  case 0
  then show ?case by simp
next
  case (Suc n)
  obtain fd1 su1 out1 where l: "emit_fingers_loop sx sy bytes n fd = (fd1, su1, out1)"
    by (cases "emit_fingers_loop sx sy bytes n fd") auto
  obtain fd2 su2 calls where f: "emit_finger sx sy bytes n fd1 su1 = (fd2, su2, calls)"
    by (cases "emit_finger sx sy bytes n fd1 su1") auto
  from Suc.prems l f have "fd' = fd2" by simp
  with Suc.IH[OF l] emit_finger_fd[OF f] show ?case by simp
qed

lemma bit_slot_mask: "bit (push_bit i 1 :: u8) j \<longleftrightarrow> j = i \<and> i < 8"
  by (auto simp add: bit_simps)

lemma and_slot_mask: "(w AND push_bit i 1 = (0::u8)) \<longleftrightarrow> \<not> bit w i"
proof
  assume "w AND push_bit i 1 = 0"
  then have "\<not> bit (w AND push_bit i 1) i" by simp
  then show "\<not> bit w i" by (auto simp: bit_simps dest: bit_imp_le_length)
next
  assume "\<not> bit w i"
  then show "w AND push_bit i 1 = 0" by (intro bit_eqI) (auto simp: bit_simps)
qed

lemma loop_slots_used:
  "emit_fingers_loop sx sy bytes n fd = (fd', su, out) \<Longrightarrow>
   bit su j \<longleftrightarrow> j < n \<and> j < 8 \<and> \<not> sentinel_rec bytes j"
proof (induction n arbitrary: fd' su out)
  case 0
  then show ?case by simp
next
  case (Suc n)
  obtain fd1 su1 out1 where l: "emit_fingers_loop sx sy bytes n fd = (fd1, su1, out1)"
    by (cases "emit_fingers_loop sx sy bytes n fd") auto
  have ih: "bit su1 j \<longleftrightarrow> j < n \<and> j < 8 \<and> \<not> sentinel_rec bytes j"
    by (rule Suc.IH[OF l])
  show ?case
  proof (cases "sentinel_rec bytes n")
    case True
    with Suc.prems l have "su = su1" by (simp add: emit_finger_sentinel)
    with ih True show ?thesis by (auto simp: less_Suc_eq)
  next
    case False
    with Suc.prems l have "su = su1 OR push_bit n 1" by (simp add: emit_finger_contact)
    with ih False show ?thesis by (auto simp: less_Suc_eq bit_simps)
  qed
qed

lemma slot_calls_loop:
  "emit_fingers_loop sx sy bytes n fd = (fd', su, out) \<Longrightarrow>
   slot_calls (int i) cur out =
     (if i < n
      then tl (snd (snd (emit_finger sx sy bytes i (fst (emit_fingers_loop sx sy bytes i fd)) 0)))
      else [])"
proof (induction n arbitrary: fd' su out)
  case 0
  then show ?case by simp
next
  case (Suc n)
  obtain fd1 su1 out1 where l: "emit_fingers_loop sx sy bytes n fd = (fd1, su1, out1)"
    by (cases "emit_fingers_loop sx sy bytes n fd") auto
  obtain fd2 su2 calls where f: "emit_finger sx sy bytes n fd1 su1 = (fd2, su2, calls)"
    by (cases "emit_finger sx sy bytes n fd1 su1") auto
  from emit_finger_shape[OF f] obtain rest where
    r: "calls = Input_Mt_Slot (int n) # rest"
       "\<forall>c \<in> set rest. \<exists>code v. c = Input_Event EV_ABS code v" by blast
  from Suc.prems l f have out: "out = out1 @ Input_Mt_Slot (int n) # rest" by (simp add: r)
  have "snd (snd (emit_finger sx sy bytes n fd1 0)) = calls"
    using f emit_finger_calls_su[of sx sy bytes n fd1 su1] by simp
  then have rest: "rest = tl (snd (snd (emit_finger sx sy bytes n fd1 0)))"
    using r(1) by simp
  have "slot_calls (int i) cur out =
        slot_calls (int i) cur out1 @ (if n = i then rest else [])"
    by (simp add: out slot_calls_append_slot slot_calls_abs_only[OF r(2)])
  with Suc.IH[OF l] rest l show ?case by (auto simp: less_Suc_eq)
qed

text \<open>What a successful call of emit_fingers is made of.\<close>

lemma emit_fingers_Inr:
  assumes "emit_fingers fd bytes = Inr (fd', out)"
  obtains fd1 su out1 where
    "emit_fingers_loop
       (origin_position (tp_info fd) = ORIGIN_LOWER_RIGHT \<or>
        origin_position (tp_info fd) = ORIGIN_UPPER_RIGHT)
       (origin_position (tp_info fd) = ORIGIN_LOWER_LEFT \<or>
        origin_position (tp_info fd) = ORIGIN_LOWER_RIGHT)
       bytes (unat (max_fingers (tp_info fd))) fd = (fd1, su, out1)"
    and "fd' = fd1\<lparr>prev_slots_used := su\<rparr>"
    and "out = out1 @
           [Input_Event EV_KEY BTN_TOOL_FINGER (if su = 1 then 1 else 0),
            Input_Event EV_KEY BTN_TOOL_DOUBLETAP (if su = 2 then 1 else 0),
            Input_Event EV_KEY BTN_TOOL_TRIPLETAP (if su = 3 then 1 else 0),
            Input_Event EV_KEY BTN_TOOL_QUADTAP (if su = 4 then 1 else 0)]"
  using assms unfolding emit_fingers_def Let_def
  by (auto split: if_splits prod.splits)

text \<open>
  A frame that holds a record for every slot of the device, on a device whose slot
  numbers are valid shift counts, is processed to the end: \<open>emit_fingers\<close> returns.
\<close>

lemma emit_fingers_succeeds:
  assumes "4 * unat (max_fingers (tp_info fd)) \<le> length bytes"
    and "unat (max_fingers (tp_info fd)) \<le> 32"
  shows "\<exists>fd' out. emit_fingers fd bytes = Inr (fd', out)"
  unfolding emit_fingers_def Let_def using assms
  by (simp split: prod.splits)

lemma emit_fingers_info:
  assumes "emit_fingers fd bytes = Inr (fd', out)"
  shows "tp_info fd' = tp_info fd"
proof -
  from assms obtain fd1 su out1 where
    l: "emit_fingers_loop
       (origin_position (tp_info fd) = ORIGIN_LOWER_RIGHT \<or>
        origin_position (tp_info fd) = ORIGIN_UPPER_RIGHT)
       (origin_position (tp_info fd) = ORIGIN_LOWER_LEFT \<or>
        origin_position (tp_info fd) = ORIGIN_LOWER_RIGHT)
       bytes (unat (max_fingers (tp_info fd))) fd = (fd1, su, out1)"
    and fd': "fd' = fd1\<lparr>prev_slots_used := su\<rparr>"
    by (rule emit_fingers_Inr)
  from loop_fd[OF l] show ?thesis by (simp add: fd')
qed

lemma emit_frames_succeeds:
  "unat (max_fingers (tp_info fd)) \<le> 32 \<Longrightarrow>
   \<forall>bytes \<in> set frames. 4 * unat (max_fingers (tp_info fd)) \<le> length bytes \<Longrightarrow>
   \<exists>fd' out. emit_frames fd frames = Inr (fd', out)"
proof (induction frames arbitrary: fd)
  case Nil
  show ?case by simp
next
  case (Cons bytes rest)
  from Cons.prems have len: "4 * unat (max_fingers (tp_info fd)) \<le> length bytes" by simp
  from emit_fingers_succeeds[OF len Cons.prems(1)] obtain fd1 out1 where
    e: "emit_fingers fd bytes = Inr (fd1, out1)" by blast
  have info: "tp_info fd1 = tp_info fd" by (rule emit_fingers_info[OF e])
  from Cons.prems have
    "unat (max_fingers (tp_info fd1)) \<le> 32"
    "\<forall>bytes \<in> set rest. 4 * unat (max_fingers (tp_info fd1)) \<le> length bytes"
    by (simp_all add: info)
  from Cons.IH[OF this] obtain fd2 out2 where
    r: "emit_frames fd1 rest = Inr (fd2, out2)" by blast
  show ?case by (simp add: e r)
qed

lemma slot_calls_emit_fingers:
  assumes "emit_fingers fd bytes = Inr (fd', out)"
  shows "slot_calls (int i) cur out =
     (if i < unat (max_fingers (tp_info fd))
      then tl (snd (snd (emit_finger
                 (origin_position (tp_info fd) = ORIGIN_LOWER_RIGHT \<or>
                  origin_position (tp_info fd) = ORIGIN_UPPER_RIGHT)
                 (origin_position (tp_info fd) = ORIGIN_LOWER_LEFT \<or>
                  origin_position (tp_info fd) = ORIGIN_LOWER_RIGHT)
                 bytes i (tm_data_at fd bytes i) 0)))
      else [])"
proof -
  from assms obtain fd1 su out1 where
    l: "emit_fingers_loop
       (origin_position (tp_info fd) = ORIGIN_LOWER_RIGHT \<or>
        origin_position (tp_info fd) = ORIGIN_UPPER_RIGHT)
       (origin_position (tp_info fd) = ORIGIN_LOWER_LEFT \<or>
        origin_position (tp_info fd) = ORIGIN_LOWER_RIGHT)
       bytes (unat (max_fingers (tp_info fd))) fd = (fd1, su, out1)"
    and out: "out = out1 @
           [Input_Event EV_KEY BTN_TOOL_FINGER (if su = 1 then 1 else 0),
            Input_Event EV_KEY BTN_TOOL_DOUBLETAP (if su = 2 then 1 else 0),
            Input_Event EV_KEY BTN_TOOL_TRIPLETAP (if su = 3 then 1 else 0),
            Input_Event EV_KEY BTN_TOOL_QUADTAP (if su = 4 then 1 else 0)]"
    by (rule emit_fingers_Inr)
  have "slot_calls (int i) cur out = slot_calls (int i) cur out1"
    unfolding out by (rule slot_calls_append_keys) auto
  with slot_calls_loop[OF l, of i cur] show ?thesis
    by (simp add: tm_data_at_def)
qed

lemma tm_data_at_info:
  "tp_info (tm_data_at fd bytes i) = tp_info fd \<and>
   prev_slots_used (tm_data_at fd bytes i) = prev_slots_used fd"
  unfolding tm_data_at_def
  by (metis loop_fd prod.collapse)

lemma and_slot_mask2: "(w AND 2 ^ i = (0::u8)) \<longleftrightarrow> \<not> bit w i"
  using and_slot_mask[of w i] by simp

lemma tm_data_at_Suc:
  "tm_data_at fd bytes (Suc i) =
     (if sentinel_rec bytes i \<or> bit (prev_slots_used fd) i then tm_data_at fd bytes i
      else (tm_data_at fd bytes i)
             \<lparr>next_tracking_id := next_id (next_tracking_id (tm_data_at fd bytes i))\<rparr>)"
proof -
  define sx where "sx = (origin_position (tp_info fd) = ORIGIN_LOWER_RIGHT \<or>
        origin_position (tp_info fd) = ORIGIN_UPPER_RIGHT)"
  define sy where "sy = (origin_position (tp_info fd) = ORIGIN_LOWER_LEFT \<or>
        origin_position (tp_info fd) = ORIGIN_LOWER_RIGHT)"
  obtain fd1 su1 out1 where l: "emit_fingers_loop sx sy bytes i fd = (fd1, su1, out1)"
    by (cases "emit_fingers_loop sx sy bytes i fd") auto
  have at: "tm_data_at fd bytes i = fd1"
    by (simp add: tm_data_at_def l sx_def[symmetric] sy_def[symmetric])
  have prev: "prev_slots_used fd1 = prev_slots_used fd"
    using loop_fd[OF l] by simp
  have nxt: "tm_data_at fd bytes (Suc i) = fst (emit_finger sx sy bytes i fd1 su1)"
    by (simp add: tm_data_at_def l sx_def[symmetric] sy_def[symmetric] split: prod.splits)
  show ?thesis
  proof (cases "sentinel_rec bytes i")
    case True
    then show ?thesis by (simp add: nxt at emit_finger_sentinel)
  next
    case False
    then show ?thesis
      by (simp add: nxt at emit_finger_contact and_slot_mask2 prev)
  qed
qed

section \<open>One raw-touch frame of the touch mouse\<close>

lemma emit_first:
  "emit_fingers tm_two frame_first =
     Inr (tm_two\<lparr>next_tracking_id := 2, prev_slots_used := 1\<rparr>,
          [Input_Mt_Slot 0, Input_Event EV_ABS ABS_MT_TRACKING_ID 1,
           Input_Event EV_ABS ABS_MT_POSITION_X 981,
           Input_Event EV_ABS ABS_MT_POSITION_Y 768,
           Input_Event EV_ABS ABS_MT_PRESSURE 30,
           Input_Mt_Slot 1, Input_Event EV_ABS ABS_MT_TRACKING_ID (- 1),
           Input_Event EV_KEY BTN_TOOL_FINGER 1,
           Input_Event EV_KEY BTN_TOOL_DOUBLETAP 0,
           Input_Event EV_KEY BTN_TOOL_TRIPLETAP 0,
           Input_Event EV_KEY BTN_TOOL_QUADTAP 0])"
proof -
  have n: "unat (max_fingers (tp_info tm_two)) = Suc (Suc 0)" by (simp add: tm_two_def)
  show ?thesis
    unfolding emit_fingers_def Let_def n
    by (simp add: tm_two_def tm_probe_def frame_first_def emit_finger_def Let_def
        ORIGIN_LOWER_RIGHT_def ORIGIN_UPPER_RIGHT_def ORIGIN_LOWER_LEFT_def)
qed

lemma sentinel_pass:
  assumes "emit_fingers fd bytes = Inr (fd', out)"
    and "i < unat (max_fingers (tp_info fd))"
    and "sentinel_rec bytes i"
  shows "slot_calls (int i) cur out = [Input_Event EV_ABS ABS_MT_TRACKING_ID (- 1)] \<and>
         tm_data_at fd bytes (Suc i) = tm_data_at fd bytes i \<and>
         \<not> bit (prev_slots_used fd') i"
proof -
  have a: "slot_calls (int i) cur out = [Input_Event EV_ABS ABS_MT_TRACKING_ID (- 1)]"
    using slot_calls_emit_fingers[OF assms(1), of i cur] assms(2,3)
    by (simp add: emit_finger_sentinel)
  have b: "tm_data_at fd bytes (Suc i) = tm_data_at fd bytes i"
    using assms(3) by (simp add: tm_data_at_Suc)
  from assms(1) obtain fd1 su out1 where
    l: "emit_fingers_loop
       (origin_position (tp_info fd) = ORIGIN_LOWER_RIGHT \<or>
        origin_position (tp_info fd) = ORIGIN_UPPER_RIGHT)
       (origin_position (tp_info fd) = ORIGIN_LOWER_LEFT \<or>
        origin_position (tp_info fd) = ORIGIN_LOWER_RIGHT)
       bytes (unat (max_fingers (tp_info fd))) fd = (fd1, su, out1)"
    and fd': "fd' = fd1\<lparr>prev_slots_used := su\<rparr>"
    by (rule emit_fingers_Inr)
  have c: "\<not> bit (prev_slots_used fd') i"
    using loop_slots_used[OF l, of i] assms(3) by (simp add: fd')
  from a b c show ?thesis by simp
qed

text \<open>
  C9. Take a raw-touch report that holds a record for every slot of the device
  (\<open>4 * max_fingers\<close> bytes are there to be read, and the slot numbers are valid
  shift counts: this is where C defines what \<open>emit_fingers\<close> does). Then
  \<open>emit_fingers\<close> returns, and when record \<open>i\<close> is the sentinel: the calls about
  slot \<open>i\<close> are exactly one "no contact" event (tracking id \<open>-1\<close>), the pass leaves
  the driver data and so the tracking-id counter as they were, and bit \<open>i\<close> of the
  slots counted as used by this frame is clear. Nothing is assumed about the slot
  having been used before.
\<close>

theorem sentinel_record_no_contact:
  assumes "4 * unat (max_fingers (tp_info fd)) \<le> length bytes"
    and "unat (max_fingers (tp_info fd)) \<le> 32"
    and "i < unat (max_fingers (tp_info fd))"
    and "sentinel_rec bytes i"
  shows "\<exists>fd' out. emit_fingers fd bytes = Inr (fd', out) \<and>
           (\<forall>cur. slot_calls (int i) cur out =
                    [Input_Event EV_ABS ABS_MT_TRACKING_ID (- 1)]) \<and>
           tm_data_at fd bytes (Suc i) = tm_data_at fd bytes i \<and>
           \<not> bit (prev_slots_used fd') i"
proof -
  from emit_fingers_succeeds[OF assms(1,2)] obtain fd' out where
    e: "emit_fingers fd bytes = Inr (fd', out)" by blast
  from sentinel_pass[OF e assms(3,4)] e show ?thesis by blast
qed

theorem sentinel_record_no_contact_witness:
  "4 * unat (max_fingers (tp_info tm_two)) \<le> length frame_first \<and>
   unat (max_fingers (tp_info tm_two)) \<le> 32 \<and>
   1 < unat (max_fingers (tp_info tm_two)) \<and>
   sentinel_rec frame_first 1 \<and>
   emit_fingers tm_two frame_first =
     Inr (tm_two\<lparr>next_tracking_id := 2, prev_slots_used := 1\<rparr>,
          [Input_Mt_Slot 0, Input_Event EV_ABS ABS_MT_TRACKING_ID 1,
           Input_Event EV_ABS ABS_MT_POSITION_X 981,
           Input_Event EV_ABS ABS_MT_POSITION_Y 768,
           Input_Event EV_ABS ABS_MT_PRESSURE 30,
           Input_Mt_Slot 1, Input_Event EV_ABS ABS_MT_TRACKING_ID (- 1),
           Input_Event EV_KEY BTN_TOOL_FINGER 1,
           Input_Event EV_KEY BTN_TOOL_DOUBLETAP 0,
           Input_Event EV_KEY BTN_TOOL_TRIPLETAP 0,
           Input_Event EV_KEY BTN_TOOL_QUADTAP 0]) \<and>
   slot_calls 1 0
          [Input_Mt_Slot 0, Input_Event EV_ABS ABS_MT_TRACKING_ID 1,
           Input_Event EV_ABS ABS_MT_POSITION_X 981,
           Input_Event EV_ABS ABS_MT_POSITION_Y 768,
           Input_Event EV_ABS ABS_MT_PRESSURE 30,
           Input_Mt_Slot 1, Input_Event EV_ABS ABS_MT_TRACKING_ID (- 1),
           Input_Event EV_KEY BTN_TOOL_FINGER 1,
           Input_Event EV_KEY BTN_TOOL_DOUBLETAP 0,
           Input_Event EV_KEY BTN_TOOL_TRIPLETAP 0,
           Input_Event EV_KEY BTN_TOOL_QUADTAP 0] =
     [Input_Event EV_ABS ABS_MT_TRACKING_ID (- 1)] \<and>
   tm_data_at tm_two frame_first 2 = tm_data_at tm_two frame_first 1 \<and>
   \<not> bit (prev_slots_used (tm_two\<lparr>next_tracking_id := 2, prev_slots_used := 1\<rparr>)) (1::nat)"
proof -
  have h0: "4 * unat (max_fingers (tp_info tm_two)) \<le> length frame_first"
    by (simp add: tm_two_def frame_first_def)
  have h1: "unat (max_fingers (tp_info tm_two)) \<le> 32" by (simp add: tm_two_def)
  have h2: "1 < unat (max_fingers (tp_info tm_two))" by (simp add: tm_two_def)
  have h3: "sentinel_rec frame_first 1" by (simp add: sentinel_rec_def frame_first_def)
  from sentinel_record_no_contact[OF h0 h1 h2 h3] obtain fd' out where
    e: "emit_fingers tm_two frame_first = Inr (fd', out)" and
    c: "slot_calls (int 1) 0 out = [Input_Event EV_ABS ABS_MT_TRACKING_ID (- 1)]"
       "tm_data_at tm_two frame_first (Suc 1) = tm_data_at tm_two frame_first 1"
       "\<not> bit (prev_slots_used fd') (1::nat)"
    by blast
  from e have eq: "fd' = tm_two\<lparr>next_tracking_id := 2, prev_slots_used := 1\<rparr>"
    "out = [Input_Mt_Slot 0, Input_Event EV_ABS ABS_MT_TRACKING_ID 1,
           Input_Event EV_ABS ABS_MT_POSITION_X 981,
           Input_Event EV_ABS ABS_MT_POSITION_Y 768,
           Input_Event EV_ABS ABS_MT_PRESSURE 30,
           Input_Mt_Slot 1, Input_Event EV_ABS ABS_MT_TRACKING_ID (- 1),
           Input_Event EV_KEY BTN_TOOL_FINGER 1,
           Input_Event EV_KEY BTN_TOOL_DOUBLETAP 0,
           Input_Event EV_KEY BTN_TOOL_TRIPLETAP 0,
           Input_Event EV_KEY BTN_TOOL_QUADTAP 0]"
    by (simp_all add: emit_first)
  have two: "Suc 1 = 2" by simp
  from c(1) have c1: "slot_calls 1 0 out = [Input_Event EV_ABS ABS_MT_TRACKING_ID (- 1)]"
    by simp
  from h0 h1 h2 h3 emit_first c1 c(2,3) show ?thesis
    unfolding eq two by blast
qed

lemma contact_coordinates:
  assumes "emit_fingers fd bytes = Inr (fd', out)"
    and "i < unat (max_fingers (tp_info fd))"
    and "\<not> sentinel_rec bytes i"
  shows "(Input_Event EV_ABS ABS_MT_POSITION_X v \<in> set (slot_calls (int i) cur out)) =
           (v = (if origin_position (tp_info fd) = ORIGIN_LOWER_RIGHT \<or>
                    origin_position (tp_info fd) = ORIGIN_UPPER_RIGHT
                 then uint (x_size (tp_info fd)) - rec_x_pos bytes i
                 else rec_x_pos bytes i)) \<and>
         (Input_Event EV_ABS ABS_MT_POSITION_Y v \<in> set (slot_calls (int i) cur out)) =
           (v = (if origin_position (tp_info fd) = ORIGIN_LOWER_LEFT \<or>
                    origin_position (tp_info fd) = ORIGIN_LOWER_RIGHT
                 then uint (y_size (tp_info fd)) - rec_y_pos bytes i
                 else rec_y_pos bytes i))"
  using slot_calls_emit_fingers[OF assms(1), of i cur] assms(2,3)
    tm_data_at_info[of fd bytes i]
  by (simp add: emit_finger_contact)

text \<open>
  C7. Take a raw-touch report that holds a record for every slot of the device
  (\<open>4 * max_fingers\<close> bytes are there to be read, and the slot numbers are valid
  shift counts: this is where C defines what \<open>emit_fingers\<close> does). Then
  \<open>emit_fingers\<close> returns, and for a record that is not the sentinel, the
  \<open>ABS_MT_POSITION_X\<close> events about its slot are those of value \<open>x_size - x\<close> when
  the origin is lower right or upper right and of the decoded \<open>x\<close> otherwise (there
  is one, and none of another value), and the \<open>ABS_MT_POSITION_Y\<close> events are those
  of value \<open>y_size - y\<close> when the origin is lower left or lower right and of the
  decoded \<open>y\<close> otherwise. So lower right flips both, upper left (and any origin
  byte outside 1..4) flips none.
\<close>

theorem origin_flips_coordinates:
  assumes "4 * unat (max_fingers (tp_info fd)) \<le> length bytes"
    and "unat (max_fingers (tp_info fd)) \<le> 32"
    and "i < unat (max_fingers (tp_info fd))"
    and "\<not> sentinel_rec bytes i"
  shows "\<exists>fd' out. emit_fingers fd bytes = Inr (fd', out) \<and>
         (\<forall>cur v.
           (Input_Event EV_ABS ABS_MT_POSITION_X v \<in> set (slot_calls (int i) cur out)) =
             (v = (if origin_position (tp_info fd) = ORIGIN_LOWER_RIGHT \<or>
                      origin_position (tp_info fd) = ORIGIN_UPPER_RIGHT
                   then uint (x_size (tp_info fd)) - rec_x_pos bytes i
                   else rec_x_pos bytes i)) \<and>
           (Input_Event EV_ABS ABS_MT_POSITION_Y v \<in> set (slot_calls (int i) cur out)) =
             (v = (if origin_position (tp_info fd) = ORIGIN_LOWER_LEFT \<or>
                      origin_position (tp_info fd) = ORIGIN_LOWER_RIGHT
                   then uint (y_size (tp_info fd)) - rec_y_pos bytes i
                   else rec_y_pos bytes i)))"
proof -
  from emit_fingers_succeeds[OF assms(1,2)] obtain fd' out where
    e: "emit_fingers fd bytes = Inr (fd', out)" by blast
  from contact_coordinates[OF e assms(3,4)] e show ?thesis by blast
qed

theorem origin_flips_coordinates_witness:
  "4 * unat (max_fingers (tp_info tm_two)) \<le> length frame_first \<and>
   unat (max_fingers (tp_info tm_two)) \<le> 32 \<and>
   0 < unat (max_fingers (tp_info tm_two)) \<and>
   \<not> sentinel_rec frame_first 0 \<and>
   origin_position (tp_info tm_two) = ORIGIN_LOWER_RIGHT \<and>
   uint (x_size (tp_info tm_two)) = 1000 \<and> rec_x_pos frame_first 0 = 19 \<and>
   uint (y_size (tp_info tm_two)) = 800 \<and> rec_y_pos frame_first 0 = 32 \<and>
   emit_fingers tm_two frame_first =
     Inr (tm_two\<lparr>next_tracking_id := 2, prev_slots_used := 1\<rparr>,
          [Input_Mt_Slot 0, Input_Event EV_ABS ABS_MT_TRACKING_ID 1,
           Input_Event EV_ABS ABS_MT_POSITION_X 981,
           Input_Event EV_ABS ABS_MT_POSITION_Y 768,
           Input_Event EV_ABS ABS_MT_PRESSURE 30,
           Input_Mt_Slot 1, Input_Event EV_ABS ABS_MT_TRACKING_ID (- 1),
           Input_Event EV_KEY BTN_TOOL_FINGER 1,
           Input_Event EV_KEY BTN_TOOL_DOUBLETAP 0,
           Input_Event EV_KEY BTN_TOOL_TRIPLETAP 0,
           Input_Event EV_KEY BTN_TOOL_QUADTAP 0]) \<and>
   Input_Event EV_ABS ABS_MT_POSITION_X 981 \<in>
     set (slot_calls 0 0
       [Input_Mt_Slot 0, Input_Event EV_ABS ABS_MT_TRACKING_ID 1,
           Input_Event EV_ABS ABS_MT_POSITION_X 981,
           Input_Event EV_ABS ABS_MT_POSITION_Y 768,
           Input_Event EV_ABS ABS_MT_PRESSURE 30,
           Input_Mt_Slot 1, Input_Event EV_ABS ABS_MT_TRACKING_ID (- 1),
           Input_Event EV_KEY BTN_TOOL_FINGER 1,
           Input_Event EV_KEY BTN_TOOL_DOUBLETAP 0,
           Input_Event EV_KEY BTN_TOOL_TRIPLETAP 0,
           Input_Event EV_KEY BTN_TOOL_QUADTAP 0]) \<and>
   Input_Event EV_ABS ABS_MT_POSITION_Y 768 \<in>
     set (slot_calls 0 0
       [Input_Mt_Slot 0, Input_Event EV_ABS ABS_MT_TRACKING_ID 1,
           Input_Event EV_ABS ABS_MT_POSITION_X 981,
           Input_Event EV_ABS ABS_MT_POSITION_Y 768,
           Input_Event EV_ABS ABS_MT_PRESSURE 30,
           Input_Mt_Slot 1, Input_Event EV_ABS ABS_MT_TRACKING_ID (- 1),
           Input_Event EV_KEY BTN_TOOL_FINGER 1,
           Input_Event EV_KEY BTN_TOOL_DOUBLETAP 0,
           Input_Event EV_KEY BTN_TOOL_TRIPLETAP 0,
           Input_Event EV_KEY BTN_TOOL_QUADTAP 0])"
proof -
  have h0: "4 * unat (max_fingers (tp_info tm_two)) \<le> length frame_first"
    by (simp add: tm_two_def frame_first_def)
  have h1: "unat (max_fingers (tp_info tm_two)) \<le> 32" by (simp add: tm_two_def)
  have h2: "0 < unat (max_fingers (tp_info tm_two))" by (simp add: tm_two_def)
  have h3: "\<not> sentinel_rec frame_first 0" by (simp add: sentinel_rec_def frame_first_def)
  have x: "rec_x_pos frame_first 0 = 19" by (simp add: rec_x_pos_def frame_first_def)
  have y: "rec_y_pos frame_first 0 = 32" by (simp add: rec_y_pos_def frame_first_def)
  have o: "origin_position (tp_info tm_two) = ORIGIN_LOWER_RIGHT"
    "uint (x_size (tp_info tm_two)) = 1000" "uint (y_size (tp_info tm_two)) = 800"
    by (simp_all add: tm_two_def)
  from origin_flips_coordinates[OF h0 h1 h2 h3] obtain fd' out where
    e: "emit_fingers tm_two frame_first = Inr (fd', out)" and
    c: "\<And>cur v.
           (Input_Event EV_ABS ABS_MT_POSITION_X v \<in> set (slot_calls (int 0) cur out)) =
             (v = (if origin_position (tp_info tm_two) = ORIGIN_LOWER_RIGHT \<or>
                      origin_position (tp_info tm_two) = ORIGIN_UPPER_RIGHT
                   then uint (x_size (tp_info tm_two)) - rec_x_pos frame_first 0
                   else rec_x_pos frame_first 0)) \<and>
           (Input_Event EV_ABS ABS_MT_POSITION_Y v \<in> set (slot_calls (int 0) cur out)) =
             (v = (if origin_position (tp_info tm_two) = ORIGIN_LOWER_LEFT \<or>
                      origin_position (tp_info tm_two) = ORIGIN_LOWER_RIGHT
                   then uint (y_size (tp_info tm_two)) - rec_y_pos frame_first 0
                   else rec_y_pos frame_first 0))"
    by blast
  from e have eq: "out = [Input_Mt_Slot 0, Input_Event EV_ABS ABS_MT_TRACKING_ID 1,
           Input_Event EV_ABS ABS_MT_POSITION_X 981,
           Input_Event EV_ABS ABS_MT_POSITION_Y 768,
           Input_Event EV_ABS ABS_MT_PRESSURE 30,
           Input_Mt_Slot 1, Input_Event EV_ABS ABS_MT_TRACKING_ID (- 1),
           Input_Event EV_KEY BTN_TOOL_FINGER 1,
           Input_Event EV_KEY BTN_TOOL_DOUBLETAP 0,
           Input_Event EV_KEY BTN_TOOL_TRIPLETAP 0,
           Input_Event EV_KEY BTN_TOOL_QUADTAP 0]"
    by (simp add: emit_first)
  from c[where v = 981 and cur = 0] have cx: "Input_Event EV_ABS ABS_MT_POSITION_X 981 \<in> set (slot_calls 0 0 out)"
    by (simp add: o x)
  from c[where v = 768 and cur = 0] have cy: "Input_Event EV_ABS ABS_MT_POSITION_Y 768 \<in> set (slot_calls 0 0 out)"
    by (simp add: o y)
  from h0 h1 h2 h3 x y o emit_first cx cy show ?thesis
    unfolding eq by blast
qed

text \<open>
  C4. The tool events compare the bit mask \<open>slots_used\<close> with 1, 2, 3 and 4, not
  the number of slots in it. With slots 0 and 1 both touched the mask is 3: the
  frame reports \<open>BTN_TOOL_TRIPLETAP\<close> and not \<open>BTN_TOOL_DOUBLETAP\<close>.
\<close>

theorem tool_bits_compare_slot_mask:
  "emit_fingers tm_two frame_both =
     Inr (tm_two\<lparr>next_tracking_id := 3, prev_slots_used := 3\<rparr>,
          [Input_Mt_Slot 0, Input_Event EV_ABS ABS_MT_TRACKING_ID 1,
           Input_Event EV_ABS ABS_MT_POSITION_X 981,
           Input_Event EV_ABS ABS_MT_POSITION_Y 768,
           Input_Event EV_ABS ABS_MT_PRESSURE 30,
           Input_Mt_Slot 1, Input_Event EV_ABS ABS_MT_TRACKING_ID 2,
           Input_Event EV_ABS ABS_MT_POSITION_X 913,
           Input_Event EV_ABS ABS_MT_POSITION_Y 704,
           Input_Event EV_ABS ABS_MT_PRESSURE 30,
           Input_Event EV_KEY BTN_TOOL_FINGER 0,
           Input_Event EV_KEY BTN_TOOL_DOUBLETAP 0,
           Input_Event EV_KEY BTN_TOOL_TRIPLETAP 1,
           Input_Event EV_KEY BTN_TOOL_QUADTAP 0])"
proof -
  have n: "unat (max_fingers (tp_info tm_two)) = Suc (Suc 0)" by (simp add: tm_two_def)
  show ?thesis
    unfolding emit_fingers_def Let_def n
    by (simp add: tm_two_def tm_probe_def frame_both_def emit_finger_def Let_def
        ORIGIN_LOWER_RIGHT_def ORIGIN_UPPER_RIGHT_def ORIGIN_LOWER_LEFT_def)
qed

section \<open>The touchpad: decoding a dual-touch report\<close>

lemmas wtp_eval = hidpp_touchpad_raw_xy_event_def hidpp_touchpad_raw_xy_decode_def
  hidpp_touchpad_touch_event_def wtp_touchpad_raw_xy_event_def wtp_touch_events_def
  wtp_touch_event_def wtp_probe_def raw_xy_zero_def finger_zero_def dual_report_def
  touch_rec_def Let_def

lemma and_1_bit0: "(w AND 1 \<noteq> (0::u8)) = bit w 0"
  by (simp add: and_one_eq bit_0 mod_2_eq_odd)

lemma drop1_and_1: "(drop_bit 1 w AND 1 \<noteq> (0::u8)) = bit w 1"
  by (simp add: and_one_eq bit_0 mod_2_eq_odd bit_iff_odd_drop_bit)

text \<open>
  C5. \<open>wtp_touch_event\<close> indexes the five slots with \<open>finger_id - 1\<close> and no
  check. From the state after \<open>wtp_probe\<close>, a report whose first touch record has
  finger id 6 writes \<open>slots[5]\<close>, and one with finger id 0 writes \<open>slots[-1]\<close>.
\<close>

theorem slot_index_unchecked:
  "hidpp_touchpad_raw_xy_event True wtp_probe raw_xy_zero
     (dual_report (touch_rec 0x42 0x60) (touch_rec 0x42 0x01)) = Inl (Slot_Out_Of_Bounds 5) \<and>
   hidpp_touchpad_raw_xy_event True wtp_probe raw_xy_zero
     (dual_report (touch_rec 0x42 0x00) (touch_rec 0x42 0x01)) = Inl (Slot_Out_Of_Bounds (- 1))"
  by (simp add: wtp_eval)

text \<open>
  C8, as stated, fails in its last part: the finger id decoded from the id byte
  \<open>0x21\<close> is 2, the high nibble, and the low 4 bits are 1.
\<close>

theorem finger_id_not_low_nibble:
  "finger_id (hidpp_touchpad_touch_event (touch_rec 0x42 0x21) finger_zero) = 2 \<and>
   touch_id (touch_rec 0x42 0x21) AND 0x0f = 1 \<and>
   finger_id (hidpp_touchpad_touch_event (touch_rec 0x42 0x21) finger_zero) \<noteq>
     touch_id (touch_rec 0x42 0x21) AND 0x0f"
  by (simp add: wtp_eval)

text \<open>
  C8, amended. Decoding a dual-touch report takes end-of-frame from bit 0 of the
  first record's id byte, the spurious flag from bit 1 of that byte, the finger
  count from the low nibble of the second record's id byte, and the finger id of
  every decoded record from the high nibble of its id byte (\<open>id >> 4\<close>). The first
  record is decoded when the finger count is not 0, the second when the condition
  of C10 holds.
\<close>

theorem dual_touch_decode_fields:
  "end_of_frame (hidpp_touchpad_raw_xy_decode raw_xy r) = touch_id (fst (touches r)) AND 0x01 \<and>
   (end_of_frame (hidpp_touchpad_raw_xy_decode raw_xy r) \<noteq> 0) = bit (touch_id (fst (touches r))) 0 \<and>
   spurious_flag (hidpp_touchpad_raw_xy_decode raw_xy r) =
     drop_bit 1 (touch_id (fst (touches r))) AND 0x01 \<and>
   (spurious_flag (hidpp_touchpad_raw_xy_decode raw_xy r) \<noteq> 0) = bit (touch_id (fst (touches r))) 1 \<and>
   finger_count (hidpp_touchpad_raw_xy_decode raw_xy r) = touch_id (snd (touches r)) AND 0x0f \<and>
   finger_id (hidpp_touchpad_touch_event t f) = drop_bit 4 (touch_id t) \<and>
   (touch_id (snd (touches r)) AND 0x0f \<noteq> 0 \<longrightarrow>
      finger_id (fst (fingers (hidpp_touchpad_raw_xy_decode raw_xy r))) =
        drop_bit 4 (touch_id (fst (touches r)))) \<and>
   (second_touch_used r \<longrightarrow>
      finger_id (snd (fingers (hidpp_touchpad_raw_xy_decode raw_xy r))) =
        drop_bit 4 (touch_id (snd (touches r))))"
proof -
  have fc: "finger_count (hidpp_touchpad_raw_xy_decode raw_xy r) = touch_id (snd (touches r)) AND 0x0f"
    by (simp add: hidpp_touchpad_raw_xy_decode_def Let_def)
  have eof: "end_of_frame (hidpp_touchpad_raw_xy_decode raw_xy r) = touch_id (fst (touches r)) AND 0x01"
    by (simp add: hidpp_touchpad_raw_xy_decode_def Let_def)
  have sp: "spurious_flag (hidpp_touchpad_raw_xy_decode raw_xy r) =
     drop_bit 1 (touch_id (fst (touches r))) AND 0x01"
    by (simp add: hidpp_touchpad_raw_xy_decode_def Let_def)
  have fid: "finger_id (hidpp_touchpad_touch_event t f) = drop_bit 4 (touch_id t)"
    by (simp add: hidpp_touchpad_touch_event_def Let_def)
  have f1: "touch_id (snd (touches r)) AND 0x0f \<noteq> 0 \<longrightarrow>
      finger_id (fst (fingers (hidpp_touchpad_raw_xy_decode raw_xy r))) =
        drop_bit 4 (touch_id (fst (touches r)))"
    by (simp add: hidpp_touchpad_raw_xy_decode_def Let_def hidpp_touchpad_touch_event_def)
  have f2: "second_touch_used r \<longrightarrow>
      finger_id (snd (fingers (hidpp_touchpad_raw_xy_decode raw_xy r))) =
        drop_bit 4 (touch_id (snd (touches r)))"
    using and_1_bit0[of "touch_id (fst (touches r))"]
    by (auto simp add: hidpp_touchpad_raw_xy_decode_def Let_def hidpp_touchpad_touch_event_def second_touch_used_def)
  show ?thesis
    using fc eof sp fid f1 f2 and_1_bit0[of "touch_id (fst (touches r))"]
      drop1_and_1[of "touch_id (fst (touches r))"]
    by simp
qed


theorem dual_touch_decode_fields_witness:
  "touch_id (snd (touches (dual_report (touch_rec 0x42 0x12) (touch_rec 0x42 0x23)))) AND 0x0f \<noteq> 0 \<and>
   second_touch_used (dual_report (touch_rec 0x42 0x12) (touch_rec 0x42 0x23)) \<and>
   end_of_frame (hidpp_touchpad_raw_xy_decode raw_xy_zero
       (dual_report (touch_rec 0x42 0x12) (touch_rec 0x42 0x23))) = 0 \<and>
   spurious_flag (hidpp_touchpad_raw_xy_decode raw_xy_zero
       (dual_report (touch_rec 0x42 0x12) (touch_rec 0x42 0x23))) = 1 \<and>
   finger_count (hidpp_touchpad_raw_xy_decode raw_xy_zero
       (dual_report (touch_rec 0x42 0x12) (touch_rec 0x42 0x23))) = 3 \<and>
   finger_id (fst (fingers (hidpp_touchpad_raw_xy_decode raw_xy_zero
       (dual_report (touch_rec 0x42 0x12) (touch_rec 0x42 0x23))))) = 1 \<and>
   finger_id (snd (fingers (hidpp_touchpad_raw_xy_decode raw_xy_zero
       (dual_report (touch_rec 0x42 0x12) (touch_rec 0x42 0x23))))) = 2"
proof -
  have h1: "touch_id (snd (touches (dual_report (touch_rec 0x42 0x12) (touch_rec 0x42 0x23))))
              AND 0x0f \<noteq> 0"
    by (simp add: dual_report_def touch_rec_def)
  have h2: "second_touch_used (dual_report (touch_rec 0x42 0x12) (touch_rec 0x42 0x23))"
    by (simp add: second_touch_used_def dual_report_def touch_rec_def)
  from dual_touch_decode_fields[of raw_xy_zero
      "dual_report (touch_rec 0x42 0x12) (touch_rec 0x42 0x23)" "touch_rec 0x42 0x12" finger_zero]
    h1 h2
  show ?thesis by (simp add: dual_report_def touch_rec_def)
qed

section \<open>The touchpad: touch events and the frame boundary\<close>

lemma wtp_release_loop_eq:
  "n \<le> length (slots fd) \<Longrightarrow>
   wtp_release_loop n fd =
     (fd\<lparr>slots := map released (take n (slots fd)) @ drop n (slots fd)\<rparr>,
      concat (map (\<lambda>j. if stale_slot fd j
                        then [Input_Mt_Slot (int j), Input_Mt_Report_Slot_State MT_TOOL_FINGER False]
                        else []) [0..<n]))"
proof (induction n)
  case 0
  then show ?case by simp
next
  case (Suc n)
  then have n: "n < length (slots fd)" by simp
  let ?S = "map released (take n (slots fd)) @ drop n (slots fd)"
  have nth: "?S ! n = slots fd ! n"
    using n by (simp add: nth_append)
  have upd: "?S[n := released (slots fd ! n)] =
             map released (take (Suc n) (slots fd)) @ drop (Suc n) (slots fd)"
    using n by (simp add: take_Suc_conv_app_nth list_update_append Cons_nth_drop_Suc[symmetric])
  have e1: "\<not> seen_in_this_frame (slots fd ! n) \<and> touch_state (slots fd ! n) \<Longrightarrow>
      (slots fd ! n)\<lparr>touch_state := False, seen_in_this_frame := False\<rparr> = released (slots fd ! n)"
    by (cases "slots fd ! n") (simp add: released_def)
  have e2: "seen_in_this_frame (slots fd ! n) \<or> \<not> touch_state (slots fd ! n) \<Longrightarrow>
      (slots fd ! n)\<lparr>seen_in_this_frame := False\<rparr> = released (slots fd ! n)"
    by (cases "slots fd ! n") (auto simp add: released_def)
  have len: "n < length ?S" using n by simp
  have ih: "wtp_release_loop n fd =
     (fd\<lparr>slots := ?S\<rparr>,
      concat (map (\<lambda>j. if stale_slot fd j
                        then [Input_Mt_Slot (int j), Input_Mt_Report_Slot_State MT_TOOL_FINGER False]
                        else []) [0..<n]))"
    using Suc by simp
  show ?case
  proof (cases "stale_slot fd n")
    case True
    then have "(slots fd ! n)\<lparr>touch_state := False, seen_in_this_frame := False\<rparr> =
               released (slots fd ! n)"
      using e1 by (simp add: stale_slot_def)
    with True len show ?thesis
      by (simp add: ih Let_def nth upd del: length_append length_map length_take length_drop)
         (simp add: stale_slot_def)
  next
    case False
    then have "(slots fd ! n)\<lparr>seen_in_this_frame := False\<rparr> = released (slots fd ! n)"
      using e2 by (auto simp add: stale_slot_def)
    with False len show ?thesis
      by (simp add: ih Let_def nth upd del: length_append length_map length_take length_drop)
         (simp add: stale_slot_def)
  qed
qed


lemma wtp_touch_event_Inr:
  assumes "wtp_touch_event fd f = Inr (fd1, out1)"
  shows "1 \<le> uint (finger_id f) \<and> uint (finger_id f) \<le> int (length (slots fd)) \<and>
         fd1 = fd\<lparr>slots := (slots fd)[nat (uint (finger_id f) - 1) :=
                   \<lparr> touch_state = (contact_status f \<noteq> 0), seen_in_this_frame = True \<rparr>]\<rparr> \<and>
         out1 = [Input_Mt_Slot (uint (finger_id f) - 1),
                 Input_Mt_Report_Slot_State MT_TOOL_FINGER (contact_status f \<noteq> 0)] @
                (if contact_status f \<noteq> 0
                 then [Input_Event EV_ABS ABS_MT_POSITION_X (uint (finger_x f)),
                       Input_Event EV_ABS ABS_MT_POSITION_Y (uint (finger_y f)),
                       Input_Event EV_ABS ABS_MT_PRESSURE (uint (finger_area f))]
                 else [])"
  using assms unfolding wtp_touch_event_def Let_def
  by (auto split: if_splits)

text \<open>
  A touch record whose slot is one of the slots of the array is applied, and a
  report whose two touch records are such is processed to the end.
\<close>

lemma wtp_touch_event_returns:
  assumes "1 \<le> uint (finger_id f)" and "uint (finger_id f) \<le> int (length (slots fd))"
  shows "\<exists>fd1 out1. wtp_touch_event fd f = Inr (fd1, out1) \<and>
           length (slots fd1) = length (slots fd)"
  unfolding wtp_touch_event_def Let_def using assms by simp

lemma wtp_touch_events_returns:
  assumes "1 \<le> uint (finger_id (fst (fingers raw)))"
    and "uint (finger_id (fst (fingers raw))) \<le> int (length (slots fd))"
    and "1 \<le> uint (finger_id (snd (fingers raw)))"
    and "uint (finger_id (snd (fingers raw))) \<le> int (length (slots fd))"
  shows "\<exists>fd1 out1. wtp_touch_events fd raw = Inr (fd1, out1) \<and>
           length (slots fd1) = length (slots fd)"
proof -
  from wtp_touch_event_returns[OF assms(1,2)] obtain fda outa where
    a: "wtp_touch_event fd (fst (fingers raw)) = Inr (fda, outa)"
    and la: "length (slots fda) = length (slots fd)" by blast
  from assms(4) la have "uint (finger_id (snd (fingers raw))) \<le> int (length (slots fda))"
    by simp
  from wtp_touch_event_returns[OF assms(3) this] obtain fdb outb where
    b: "wtp_touch_event fda (snd (fingers raw)) = Inr (fdb, outb)"
    and lb: "length (slots fdb) = length (slots fda)" by blast
  show ?thesis
    unfolding wtp_touch_events_def Let_def by (simp add: a b la lb)
qed

lemma wtp_touchpad_raw_xy_event_returns:
  assumes "1 \<le> uint (finger_id (fst (fingers raw)))"
    and "uint (finger_id (fst (fingers raw))) \<le> int (length (slots fd))"
    and "1 \<le> uint (finger_id (snd (fingers raw)))"
    and "uint (finger_id (snd (fingers raw))) \<le> int (length (slots fd))"
  shows "\<exists>ret fd' out. wtp_touchpad_raw_xy_event initialized fd raw = Inr (ret, fd', out)"
proof -
  from wtp_touch_events_returns[OF assms] obtain fd1 out1 where
    "wtp_touch_events fd raw = Inr (fd1, out1)" by blast
  then show ?thesis
    unfolding wtp_touchpad_raw_xy_event_def Let_def by (simp split: prod.splits)
qed

lemma touch_decode_any:
  "hidpp_touchpad_touch_event t f = hidpp_touchpad_touch_event t f'"
  by (cases f, cases f') (simp add: hidpp_touchpad_touch_event_def Let_def)

lemma boundary_result:
  assumes "wtp_touchpad_raw_xy_event True fd raw = Inr (ret, fd', out)"
    and "wtp_touch_events fd raw = Inr (fd1, out1)"
    and "end_of_frame raw \<noteq> 0 \<or> uint (finger_count raw) \<le> 2"
  shows "fd' = fd1\<lparr>slots := map released (slots fd1)\<rparr> \<and>
         out = out1 @
           concat (map (\<lambda>j. if stale_slot fd1 j
                        then [Input_Mt_Slot (int j), Input_Mt_Report_Slot_State MT_TOOL_FINGER False]
                        else []) [0..<length (slots fd1)]) @
           [Input_Mt_Report_Pointer_Emulation True,
            Input_Report_Key BTN_TOOL_FINGER (uint (finger_count raw) = 1),
            Input_Report_Key BTN_TOOL_DOUBLETAP (uint (finger_count raw) = 2),
            Input_Report_Key BTN_TOOL_TRIPLETAP (uint (finger_count raw) = 3),
            Input_Report_Key BTN_TOOL_QUADTAP (uint (finger_count raw) = 4),
            Input_Sync]"
  using assms wtp_release_loop_eq[of "length (slots fd1)" fd1]
  unfolding wtp_touchpad_raw_xy_event_def Let_def
  by (auto split: if_splits)

lemma no_boundary_result:
  assumes "wtp_touchpad_raw_xy_event True fd raw = Inr (ret, fd', out)"
    and "wtp_touch_events fd raw = Inr (fd1, out1)"
    and "end_of_frame raw = 0" and "3 \<le> uint (finger_count raw)"
  shows "fd' = fd1 \<and> out = out1"
  using assms unfolding wtp_touchpad_raw_xy_event_def Let_def
  by (auto split: if_splits)

lemma touch_events_both:
  assumes "wtp_touch_events fd raw = Inr (fd2, out)"
    and "(end_of_frame raw \<noteq> 0 \<and> uint (finger_count raw) = 4) \<or>
         (end_of_frame raw = 0 \<and> 2 \<le> uint (finger_count raw))"
  obtains fd1 out1 out2 where
    "wtp_touch_event fd (fst (fingers raw)) = Inr (fd1, out1)"
    "wtp_touch_event fd1 (snd (fingers raw)) = Inr (fd2, out2)"
    "out = out1 @ out2"
  using assms unfolding wtp_touch_events_def Let_def
  by (auto split: if_splits sum.splits)


text \<open>
  C2, as stated, fails in its first part. From the state after \<open>wtp_probe\<close>, a
  first report puts finger 1 down in slot 0. A second report with end-of-frame
  clear and a finger count of 3 carries the touch record of finger 1 with contact
  status 0: slot 0, active before, is released by it (\<open>touch_state\<close> cleared, slot
  state "no contact" reported), between two frame boundaries.
\<close>

theorem lift_off_between_boundaries:
  "hidpp_touchpad_raw_xy_event True wtp_probe raw_xy_zero report_one_down =
     Inr (1, wtp_slots True False False False,
          [Input_Mt_Slot 0, Input_Mt_Report_Slot_State MT_TOOL_FINGER True,
           Input_Event EV_ABS ABS_MT_POSITION_X 261,
           Input_Event EV_ABS ABS_MT_POSITION_Y 519,
           Input_Event EV_ABS ABS_MT_PRESSURE 9,
           Input_Mt_Report_Pointer_Emulation True,
           Input_Report_Key BTN_TOOL_FINGER True,
           Input_Report_Key BTN_TOOL_DOUBLETAP False,
           Input_Report_Key BTN_TOOL_TRIPLETAP False,
           Input_Report_Key BTN_TOOL_QUADTAP False, Input_Sync]) \<and>
   end_of_frame (hidpp_touchpad_raw_xy_decode raw_xy_zero report_lift_mid_frame) = 0 \<and>
   finger_count (hidpp_touchpad_raw_xy_decode raw_xy_zero report_lift_mid_frame) = 3 \<and>
   hidpp_touchpad_raw_xy_event True (wtp_slots True False False False) raw_xy_zero
       report_lift_mid_frame =
     Inr (1, wtp_slots False True True True,
          [Input_Mt_Slot 0, Input_Mt_Report_Slot_State MT_TOOL_FINGER False,
           Input_Mt_Slot 1, Input_Mt_Report_Slot_State MT_TOOL_FINGER True,
           Input_Event EV_ABS ABS_MT_POSITION_X 261,
           Input_Event EV_ABS ABS_MT_POSITION_Y 519,
           Input_Event EV_ABS ABS_MT_PRESSURE 9]) \<and>
   touch_state (slots (wtp_slots True False False False) ! 0) \<and>
   \<not> touch_state (slots (wtp_slots False True True True) ! 0)"
  by code_simp

text \<open>
  C2, amended. With end-of-frame clear and a finger count of at least 3 there is
  no release loop: the result is that of the touch events, and a slot that was
  touched before and is not after is the slot of one of the two touch records of
  the report, whose contact status is 0. At a frame boundary (end-of-frame set or
  a finger count of at most 2), after the touch events, exactly the stale slots
  (touched, not seen in this frame) are released, with a "no contact" slot state
  for each, in slot order; every other slot keeps its touch state; and every slot
  is marked as not seen.
\<close>

theorem frame_boundary_release:
  assumes "wtp_touchpad_raw_xy_event True fd raw = Inr (ret, fd', out)"
    and "wtp_touch_events fd raw = Inr (fd1, out1)"
  shows
   "(end_of_frame raw = 0 \<and> 3 \<le> uint (finger_count raw) \<longrightarrow>
       fd' = fd1 \<and> out = out1 \<and>
       (\<forall>j < length (slots fd).
          touch_state (slots fd ! j) \<and> \<not> touch_state (slots fd' ! j) \<longrightarrow>
            (int j = uint (finger_id (fst (fingers raw))) - 1 \<and>
             contact_status (fst (fingers raw)) = 0) \<or>
            (int j = uint (finger_id (snd (fingers raw))) - 1 \<and>
             contact_status (snd (fingers raw)) = 0))) \<and>
    (end_of_frame raw \<noteq> 0 \<or> uint (finger_count raw) \<le> 2 \<longrightarrow>
       length (slots fd') = length (slots fd1) \<and>
       (\<forall>j < length (slots fd1).
          touch_state (slots fd' ! j) = (touch_state (slots fd1 ! j) \<and> \<not> stale_slot fd1 j) \<and>
          \<not> seen_in_this_frame (slots fd' ! j)) \<and>
       out = out1 @
         concat (map (\<lambda>j. if stale_slot fd1 j
                      then [Input_Mt_Slot (int j), Input_Mt_Report_Slot_State MT_TOOL_FINGER False]
                      else []) [0..<length (slots fd1)]) @
         [Input_Mt_Report_Pointer_Emulation True,
          Input_Report_Key BTN_TOOL_FINGER (uint (finger_count raw) = 1),
          Input_Report_Key BTN_TOOL_DOUBLETAP (uint (finger_count raw) = 2),
          Input_Report_Key BTN_TOOL_TRIPLETAP (uint (finger_count raw) = 3),
          Input_Report_Key BTN_TOOL_QUADTAP (uint (finger_count raw) = 4),
          Input_Sync])"
proof (intro conjI impI)
  assume nb: "end_of_frame raw = 0 \<and> 3 \<le> uint (finger_count raw)"
  with no_boundary_result[OF assms] show same: "fd' = fd1" and "out = out1" by simp_all
  from nb have "(end_of_frame raw \<noteq> 0 \<and> uint (finger_count raw) = 4) \<or>
         (end_of_frame raw = 0 \<and> 2 \<le> uint (finger_count raw))" by simp
  with assms(2) obtain fda outa outb where
    a: "wtp_touch_event fd (fst (fingers raw)) = Inr (fda, outa)" and
    b: "wtp_touch_event fda (snd (fingers raw)) = Inr (fd1, outb)"
    by (rule touch_events_both)
  let ?s1 = "nat (uint (finger_id (fst (fingers raw))) - 1)"
  let ?s2 = "nat (uint (finger_id (snd (fingers raw))) - 1)"
  from wtp_touch_event_Inr[OF a] have
    a1: "1 \<le> uint (finger_id (fst (fingers raw)))" and
    a2: "slots fda = (slots fd)[?s1 :=
           \<lparr> touch_state = (contact_status (fst (fingers raw)) \<noteq> 0), seen_in_this_frame = True \<rparr>]"
    by simp_all
  from wtp_touch_event_Inr[OF b] have
    b1: "1 \<le> uint (finger_id (snd (fingers raw)))" and
    b2: "slots fd1 = (slots fda)[?s2 :=
           \<lparr> touch_state = (contact_status (snd (fingers raw)) \<noteq> 0), seen_in_this_frame = True \<rparr>]"
    by simp_all
  show "\<forall>j < length (slots fd).
          touch_state (slots fd ! j) \<and> \<not> touch_state (slots fd' ! j) \<longrightarrow>
            (int j = uint (finger_id (fst (fingers raw))) - 1 \<and>
             contact_status (fst (fingers raw)) = 0) \<or>
            (int j = uint (finger_id (snd (fingers raw))) - 1 \<and>
             contact_status (snd (fingers raw)) = 0)"
  proof (intro allI impI)
    fix j assume j: "j < length (slots fd)"
      and t: "touch_state (slots fd ! j) \<and> \<not> touch_state (slots fd' ! j)"
    have sl: "slots fd' ! j =
       ((slots fd)[?s1 := \<lparr> touch_state = (contact_status (fst (fingers raw)) \<noteq> 0),
                            seen_in_this_frame = True \<rparr>])
         [?s2 := \<lparr> touch_state = (contact_status (snd (fingers raw)) \<noteq> 0),
                   seen_in_this_frame = True \<rparr>] ! j"
      using same a2 b2 by simp
    show "(int j = uint (finger_id (fst (fingers raw))) - 1 \<and>
             contact_status (fst (fingers raw)) = 0) \<or>
            (int j = uint (finger_id (snd (fingers raw))) - 1 \<and>
             contact_status (snd (fingers raw)) = 0)"
    proof (cases "j = ?s2")
      case True
      with sl j t a1 b1 show ?thesis by (auto simp add: nth_list_update)
    next
      case False
      note ns2 = this
      show ?thesis
      proof (cases "j = ?s1")
        case True
        with sl j t a1 b1 ns2 show ?thesis by (auto simp add: nth_list_update)
      next
        case False
        with sl j t ns2 show ?thesis by (simp add: nth_list_update)
      qed
    qed
  qed
next
  assume bd: "end_of_frame raw \<noteq> 0 \<or> uint (finger_count raw) \<le> 2"
  from boundary_result[OF assms bd] have
    fd': "fd' = fd1\<lparr>slots := map released (slots fd1)\<rparr>" and
    out: "out = out1 @
           concat (map (\<lambda>j. if stale_slot fd1 j
                        then [Input_Mt_Slot (int j), Input_Mt_Report_Slot_State MT_TOOL_FINGER False]
                        else []) [0..<length (slots fd1)]) @
           [Input_Mt_Report_Pointer_Emulation True,
            Input_Report_Key BTN_TOOL_FINGER (uint (finger_count raw) = 1),
            Input_Report_Key BTN_TOOL_DOUBLETAP (uint (finger_count raw) = 2),
            Input_Report_Key BTN_TOOL_TRIPLETAP (uint (finger_count raw) = 3),
            Input_Report_Key BTN_TOOL_QUADTAP (uint (finger_count raw) = 4),
            Input_Sync]"
    by simp_all
  show "length (slots fd') = length (slots fd1)" by (simp add: fd')
  show "\<forall>j < length (slots fd1).
          touch_state (slots fd' ! j) = (touch_state (slots fd1 ! j) \<and> \<not> stale_slot fd1 j) \<and>
          \<not> seen_in_this_frame (slots fd' ! j)"
    by (auto simp add: fd' released_def stale_slot_def)
  show "out = out1 @
         concat (map (\<lambda>j. if stale_slot fd1 j
                      then [Input_Mt_Slot (int j), Input_Mt_Report_Slot_State MT_TOOL_FINGER False]
                      else []) [0..<length (slots fd1)]) @
         [Input_Mt_Report_Pointer_Emulation True,
          Input_Report_Key BTN_TOOL_FINGER (uint (finger_count raw) = 1),
          Input_Report_Key BTN_TOOL_DOUBLETAP (uint (finger_count raw) = 2),
          Input_Report_Key BTN_TOOL_TRIPLETAP (uint (finger_count raw) = 3),
          Input_Report_Key BTN_TOOL_QUADTAP (uint (finger_count raw) = 4),
          Input_Sync]" by (rule out)
qed


lemma two_down_event:
  "wtp_touchpad_raw_xy_event True (wtp_slots True False False False)
     (hidpp_touchpad_raw_xy_decode raw_xy_zero report_two_down) =
   Inr (1, wtp_slots False False True False,
        [Input_Mt_Slot 1, Input_Mt_Report_Slot_State MT_TOOL_FINGER True,
         Input_Event EV_ABS ABS_MT_POSITION_X 261,
         Input_Event EV_ABS ABS_MT_POSITION_Y 519,
         Input_Event EV_ABS ABS_MT_PRESSURE 9, Input_Mt_Slot 0,
         Input_Mt_Report_Slot_State MT_TOOL_FINGER False,
         Input_Mt_Report_Pointer_Emulation True,
         Input_Report_Key BTN_TOOL_FINGER True,
         Input_Report_Key BTN_TOOL_DOUBLETAP False,
         Input_Report_Key BTN_TOOL_TRIPLETAP False,
         Input_Report_Key BTN_TOOL_QUADTAP False, Input_Sync])"
  by code_simp

lemma two_down_touch:
  "wtp_touch_events (wtp_slots True False False False)
     (hidpp_touchpad_raw_xy_decode raw_xy_zero report_two_down) =
   Inr (wtp_slots True False True True,
        [Input_Mt_Slot 1, Input_Mt_Report_Slot_State MT_TOOL_FINGER True,
         Input_Event EV_ABS ABS_MT_POSITION_X 261,
         Input_Event EV_ABS ABS_MT_POSITION_Y 519,
         Input_Event EV_ABS ABS_MT_PRESSURE 9])"
  by code_simp

theorem frame_boundary_release_witness:
  "wtp_touchpad_raw_xy_event True (wtp_slots True False False False)
     (hidpp_touchpad_raw_xy_decode raw_xy_zero report_two_down) =
   Inr (1, wtp_slots False False True False,
        [Input_Mt_Slot 1, Input_Mt_Report_Slot_State MT_TOOL_FINGER True,
         Input_Event EV_ABS ABS_MT_POSITION_X 261,
         Input_Event EV_ABS ABS_MT_POSITION_Y 519,
         Input_Event EV_ABS ABS_MT_PRESSURE 9, Input_Mt_Slot 0,
         Input_Mt_Report_Slot_State MT_TOOL_FINGER False,
         Input_Mt_Report_Pointer_Emulation True,
         Input_Report_Key BTN_TOOL_FINGER True,
         Input_Report_Key BTN_TOOL_DOUBLETAP False,
         Input_Report_Key BTN_TOOL_TRIPLETAP False,
         Input_Report_Key BTN_TOOL_QUADTAP False, Input_Sync]) \<and>
   wtp_touch_events (wtp_slots True False False False)
     (hidpp_touchpad_raw_xy_decode raw_xy_zero report_two_down) =
   Inr (wtp_slots True False True True,
        [Input_Mt_Slot 1, Input_Mt_Report_Slot_State MT_TOOL_FINGER True,
         Input_Event EV_ABS ABS_MT_POSITION_X 261,
         Input_Event EV_ABS ABS_MT_POSITION_Y 519,
         Input_Event EV_ABS ABS_MT_PRESSURE 9]) \<and>
   end_of_frame (hidpp_touchpad_raw_xy_decode raw_xy_zero report_two_down) \<noteq> 0 \<and>
   length (slots (wtp_slots False False True False)) =
     length (slots (wtp_slots True False True True)) \<and>
   stale_slot (wtp_slots True False True True) 0 \<and>
   touch_state (slots (wtp_slots False False True False) ! 0) =
     (touch_state (slots (wtp_slots True False True True) ! 0) \<and>
      \<not> stale_slot (wtp_slots True False True True) 0) \<and>
   \<not> seen_in_this_frame (slots (wtp_slots False False True False) ! 0)"
proof -
  have h3: "end_of_frame (hidpp_touchpad_raw_xy_decode raw_xy_zero report_two_down) \<noteq> 0"
    by code_simp
  have h4: "stale_slot (wtp_slots True False True True) 0"
    by (simp add: stale_slot_def wtp_slots_def)
  have h5: "0 < length (slots (wtp_slots True False True True))"
    by (simp add: wtp_slots_def)
  from frame_boundary_release[OF two_down_event two_down_touch] h3
  have all: "\<forall>j < length (slots (wtp_slots True False True True)).
      touch_state (slots (wtp_slots False False True False) ! j) =
        (touch_state (slots (wtp_slots True False True True) ! j) \<and>
         \<not> stale_slot (wtp_slots True False True True) j) \<and>
      \<not> seen_in_this_frame (slots (wtp_slots False False True False) ! j)"
    and len: "length (slots (wtp_slots False False True False)) =
     length (slots (wtp_slots True False True True))"
    by simp_all
  from all[rule_format, OF h5] len two_down_event two_down_touch h3 h4
  show ?thesis by simp
qed

lemma wtp_raw_cong:
  assumes "finger_count raw = finger_count raw'" and "end_of_frame raw = end_of_frame raw'"
    and "finger_count raw \<noteq> 0 \<Longrightarrow> fst (fingers raw) = fst (fingers raw')"
    and "(end_of_frame raw \<noteq> 0 \<and> uint (finger_count raw) = 4) \<or>
         (end_of_frame raw = 0 \<and> 2 \<le> uint (finger_count raw)) \<Longrightarrow>
         snd (fingers raw) = snd (fingers raw')"
  shows "wtp_touchpad_raw_xy_event init fd raw = wtp_touchpad_raw_xy_event init fd raw'"
proof -
  have "wtp_touch_events fd raw = wtp_touch_events fd raw'"
    using assms unfolding wtp_touch_events_def Let_def
    by (auto split: sum.splits simp: uint_0_iff)
  then show ?thesis
    unfolding wtp_touchpad_raw_xy_event_def Let_def assms(1,2) by (simp only:)
qed

lemma decode_fields:
  "finger_count (hidpp_touchpad_raw_xy_decode raw_xy r) = touch_id (snd (touches r)) AND 0x0f"
  "end_of_frame (hidpp_touchpad_raw_xy_decode raw_xy r) = touch_id (fst (touches r)) AND 0x01"
  "touch_id (snd (touches r)) AND 0x0f \<noteq> 0 \<Longrightarrow>
   fst (fingers (hidpp_touchpad_raw_xy_decode raw_xy r)) =
     hidpp_touchpad_touch_event (fst (touches r)) (fst (fingers raw_xy))"
  "(touch_id (fst (touches r)) AND 0x01 \<noteq> 0 \<and> touch_id (snd (touches r)) AND 0x0f = 4) \<or>
   (touch_id (fst (touches r)) AND 0x01 = 0 \<and> 2 \<le> touch_id (snd (touches r)) AND 0x0f) \<Longrightarrow>
   snd (fingers (hidpp_touchpad_raw_xy_decode raw_xy r)) =
     hidpp_touchpad_touch_event (snd (touches r)) (snd (fingers raw_xy))"
  by (auto simp add: hidpp_touchpad_raw_xy_decode_def Let_def)

lemma u8_cmp: "(uint (w :: u8) = 4) = (w = 4)" "(2 \<le> uint (w :: u8)) = (2 \<le> w)"
  by (auto simp add: word_le_def word_uint_eq_iff)

lemma used_iff:
  "second_touch_used r \<longleftrightarrow>
   (touch_id (fst (touches r)) AND 0x01 \<noteq> 0 \<and> touch_id (snd (touches r)) AND 0x0f = 4) \<or>
   (touch_id (fst (touches r)) AND 0x01 = 0 \<and> 2 \<le> touch_id (snd (touches r)) AND 0x0f)"
  using and_1_bit0[of "touch_id (fst (touches r))"]
  by (auto simp add: second_touch_used_def Let_def)

lemma raw_xy_event_touch_events:
  assumes "wtp_touchpad_raw_xy_event True fd raw = Inr (ret, fd', out)"
  obtains fd1 out1 where "wtp_touch_events fd raw = Inr (fd1, out1)"
  using assms unfolding wtp_touchpad_raw_xy_event_def Let_def
  by (auto split: sum.splits)


text \<open>
  C10. Whether the second touch record of a dual-touch report is used depends on
  the wire bytes as the claim says (\<open>second_touch_used\<close>): end-of-frame clear and a
  finger count of at least 2, or end-of-frame set and a finger count of 4.
  When the condition fails, the outcome of the report does not depend on the
  second record (beyond the finger count in the low nibble of its id byte) nor on
  the uninitialised locals. When it holds and no fault occurs, the slot of the
  second record is in range, ends with the touch state of that record, and is
  selected in the output. In particular, with end-of-frame set and a finger count
  of 2 or 3 the touch events of the report are those of its first record alone.
\<close>

theorem second_touch_record_condition:
  "(\<not> second_touch_used r \<and> fst (touches r') = fst (touches r) \<and>
      touch_id (snd (touches r')) AND 0x0f = touch_id (snd (touches r)) AND 0x0f \<longrightarrow>
      hidpp_touchpad_raw_xy_event init fd raw_xy' r' =
      hidpp_touchpad_raw_xy_event init fd raw_xy r) \<and>
   (second_touch_used r \<and>
      hidpp_touchpad_raw_xy_event True fd raw_xy r = Inr (ret, fd', out) \<longrightarrow>
      1 \<le> uint (drop_bit 4 (touch_id (snd (touches r)))) \<and>
      uint (drop_bit 4 (touch_id (snd (touches r)))) \<le> int (length (slots fd)) \<and>
      touch_state (slots fd' ! nat (uint (drop_bit 4 (touch_id (snd (touches r)))) - 1)) =
        (drop_bit 6 (y_m (snd (touches r))) \<noteq> 0) \<and>
      Input_Mt_Slot (uint (drop_bit 4 (touch_id (snd (touches r)))) - 1) \<in> set out) \<and>
   (bit (touch_id (fst (touches r))) 0 \<and>
      (touch_id (snd (touches r)) AND 0x0f = 2 \<or> touch_id (snd (touches r)) AND 0x0f = 3) \<longrightarrow>
      \<not> second_touch_used r \<and>
      wtp_touch_events fd (hidpp_touchpad_raw_xy_decode raw_xy r) =
        wtp_touch_event fd
          (hidpp_touchpad_touch_event (fst (touches r)) (fst (fingers raw_xy))))"
proof (intro conjI impI)
  assume a: "\<not> second_touch_used r \<and> fst (touches r') = fst (touches r) \<and>
      touch_id (snd (touches r')) AND 0x0f = touch_id (snd (touches r)) AND 0x0f"
  then have nu: "\<not> second_touch_used r" and nu': "\<not> second_touch_used r'"
    by (simp_all add: used_iff)
  show "hidpp_touchpad_raw_xy_event init fd raw_xy' r' =
        hidpp_touchpad_raw_xy_event init fd raw_xy r"
    unfolding hidpp_touchpad_raw_xy_event_def
  proof (rule wtp_raw_cong)
    show "finger_count (hidpp_touchpad_raw_xy_decode raw_xy' r') =
          finger_count (hidpp_touchpad_raw_xy_decode raw_xy r)"
      using a by (simp add: decode_fields)
    show "end_of_frame (hidpp_touchpad_raw_xy_decode raw_xy' r') =
          end_of_frame (hidpp_touchpad_raw_xy_decode raw_xy r)"
      using a by (simp add: decode_fields)
    show "fst (fingers (hidpp_touchpad_raw_xy_decode raw_xy' r')) =
          fst (fingers (hidpp_touchpad_raw_xy_decode raw_xy r))"
      if "finger_count (hidpp_touchpad_raw_xy_decode raw_xy' r') \<noteq> 0"
      using that a touch_decode_any[of "fst (touches r)" "fst (fingers raw_xy')" "fst (fingers raw_xy)"]
      by (simp add: decode_fields)
    show "snd (fingers (hidpp_touchpad_raw_xy_decode raw_xy' r')) =
          snd (fingers (hidpp_touchpad_raw_xy_decode raw_xy r))"
      if "(end_of_frame (hidpp_touchpad_raw_xy_decode raw_xy' r') \<noteq> 0 \<and>
           uint (finger_count (hidpp_touchpad_raw_xy_decode raw_xy' r')) = 4) \<or>
          (end_of_frame (hidpp_touchpad_raw_xy_decode raw_xy' r') = 0 \<and>
           2 \<le> uint (finger_count (hidpp_touchpad_raw_xy_decode raw_xy' r')))"
      using that nu' by (simp add: decode_fields used_iff u8_cmp)
  qed
next
  assume b: "second_touch_used r \<and>
      hidpp_touchpad_raw_xy_event True fd raw_xy r = Inr (ret, fd', out)"
  define raw where "raw = hidpp_touchpad_raw_xy_decode raw_xy r"
  from b have ev: "wtp_touchpad_raw_xy_event True fd raw = Inr (ret, fd', out)"
    by (simp add: hidpp_touchpad_raw_xy_event_def raw_def)
  from b have cond: "(end_of_frame raw \<noteq> 0 \<and> uint (finger_count raw) = 4) \<or>
         (end_of_frame raw = 0 \<and> 2 \<le> uint (finger_count raw))"
    by (simp add: raw_def decode_fields used_iff u8_cmp)
  from b have f2: "snd (fingers raw) =
      hidpp_touchpad_touch_event (snd (touches r)) (snd (fingers raw_xy))"
    by (simp add: raw_def decode_fields used_iff)
  have fid: "finger_id (snd (fingers raw)) = drop_bit 4 (touch_id (snd (touches r)))"
    and st: "contact_status (snd (fingers raw)) = drop_bit 6 (y_m (snd (touches r)))"
    by (simp_all add: f2 hidpp_touchpad_touch_event_def Let_def)
  from ev obtain fd2 outt where te: "wtp_touch_events fd raw = Inr (fd2, outt)"
    by (rule raw_xy_event_touch_events)
  from te cond obtain fd1 out1 out2 where
    t1: "wtp_touch_event fd (fst (fingers raw)) = Inr (fd1, out1)" and
    t2: "wtp_touch_event fd1 (snd (fingers raw)) = Inr (fd2, out2)" and
    outt: "outt = out1 @ out2"
    by (rule touch_events_both)
  let ?s = "nat (uint (finger_id (snd (fingers raw))) - 1)"
  from wtp_touch_event_Inr[OF t1] have len1: "length (slots fd1) = length (slots fd)"
    by simp
  from wtp_touch_event_Inr[OF t2] have
    lo: "1 \<le> uint (finger_id (snd (fingers raw)))" and
    hi: "uint (finger_id (snd (fingers raw))) \<le> int (length (slots fd1))" and
    sl2: "slots fd2 = (slots fd1)[?s :=
           \<lparr> touch_state = (contact_status (snd (fingers raw)) \<noteq> 0), seen_in_this_frame = True \<rparr>]" and
    o2: "Input_Mt_Slot (uint (finger_id (snd (fingers raw))) - 1) \<in> set out2"
    by simp_all
  from lo hi have sin: "?s < length (slots fd1)" by simp
  have at2: "slots fd2 ! ?s =
      \<lparr> touch_state = (contact_status (snd (fingers raw)) \<noteq> 0), seen_in_this_frame = True \<rparr>"
    using sin by (simp add: sl2)
  have res: "touch_state (slots fd' ! ?s) = (contact_status (snd (fingers raw)) \<noteq> 0) \<and>
             set outt \<subseteq> set out"
  proof (cases "end_of_frame raw \<noteq> 0 \<or> uint (finger_count raw) \<le> 2")
    case True
    from boundary_result[OF ev te True] sin at2 show ?thesis
      by (auto simp add: sl2 released_def)
  next
    case False
    then have "end_of_frame raw = 0" "3 \<le> uint (finger_count raw)" by simp_all
    from no_boundary_result[OF ev te this] at2 show ?thesis by simp
  qed
  show "1 \<le> uint (drop_bit 4 (touch_id (snd (touches r))))"
    using lo by (simp add: fid)
  show "uint (drop_bit 4 (touch_id (snd (touches r)))) \<le> int (length (slots fd))"
    using hi by (simp add: fid len1)
  show "touch_state (slots fd' ! nat (uint (drop_bit 4 (touch_id (snd (touches r)))) - 1)) =
        (drop_bit 6 (y_m (snd (touches r))) \<noteq> 0)"
    using res by (simp add: fid st)
  show "Input_Mt_Slot (uint (drop_bit 4 (touch_id (snd (touches r)))) - 1) \<in> set out"
    using res o2 outt by (auto simp add: fid)
next
  assume c: "bit (touch_id (fst (touches r))) 0 \<and>
      (touch_id (snd (touches r)) AND 0x0f = 2 \<or> touch_id (snd (touches r)) AND 0x0f = 3)"
  then have e: "touch_id (fst (touches r)) AND 0x01 \<noteq> 0"
    using and_1_bit0[of "touch_id (fst (touches r))"] by simp
  from c e show nu: "\<not> second_touch_used r"
    by (auto simp add: used_iff)
  from c have fc: "touch_id (snd (touches r)) AND 0x0f \<noteq> 0" by auto
  show "wtp_touch_events fd (hidpp_touchpad_raw_xy_decode raw_xy r) =
        wtp_touch_event fd
          (hidpp_touchpad_touch_event (fst (touches r)) (fst (fingers raw_xy)))"
    using c e fc nu
    by (auto simp add: wtp_touch_events_def Let_def decode_fields uint_0_iff u8_cmp
        split: sum.splits)
qed


theorem second_touch_record_condition_witness:
  "\<not> second_touch_used report_eof_three \<and>
   fst (touches report_eof_three_other) = fst (touches report_eof_three) \<and>
   touch_id (snd (touches report_eof_three_other)) AND 0x0f =
     touch_id (snd (touches report_eof_three)) AND 0x0f \<and>
   hidpp_touchpad_raw_xy_event True wtp_probe raw_xy_zero report_eof_three_other =
     hidpp_touchpad_raw_xy_event True wtp_probe raw_xy_zero report_eof_three \<and>
   bit (touch_id (fst (touches report_eof_three))) 0 \<and>
   touch_id (snd (touches report_eof_three)) AND 0x0f = 3 \<and>
   wtp_touch_events wtp_probe (hidpp_touchpad_raw_xy_decode raw_xy_zero report_eof_three) =
     wtp_touch_event wtp_probe
       (hidpp_touchpad_touch_event (fst (touches report_eof_three)) (fst (fingers raw_xy_zero))) \<and>
   second_touch_used report_lift_mid_frame \<and>
   hidpp_touchpad_raw_xy_event True (wtp_slots True False False False) raw_xy_zero
       report_lift_mid_frame =
     Inr (1, wtp_slots False True True True,
          [Input_Mt_Slot 0, Input_Mt_Report_Slot_State MT_TOOL_FINGER False,
           Input_Mt_Slot 1, Input_Mt_Report_Slot_State MT_TOOL_FINGER True,
           Input_Event EV_ABS ABS_MT_POSITION_X 261,
           Input_Event EV_ABS ABS_MT_POSITION_Y 519,
           Input_Event EV_ABS ABS_MT_PRESSURE 9]) \<and>
   touch_state (slots (wtp_slots False True True True) !
      nat (uint (drop_bit 4 (touch_id (snd (touches report_lift_mid_frame)))) - 1)) =
     (drop_bit 6 (y_m (snd (touches report_lift_mid_frame))) \<noteq> 0)"
proof -
  have a1: "\<not> second_touch_used report_eof_three"
    by (simp add: second_touch_used_def report_eof_three_def dual_report_def touch_rec_def)
  have a2: "fst (touches report_eof_three_other) = fst (touches report_eof_three)"
    by (simp add: report_eof_three_def report_eof_three_other_def dual_report_def)
  have a3: "touch_id (snd (touches report_eof_three_other)) AND 0x0f =
            touch_id (snd (touches report_eof_three)) AND 0x0f"
    by (simp add: report_eof_three_def report_eof_three_other_def dual_report_def touch_rec_def)
  have c1: "bit (touch_id (fst (touches report_eof_three))) 0"
    by (simp add: report_eof_three_def dual_report_def touch_rec_def)
  have c2: "touch_id (snd (touches report_eof_three)) AND 0x0f = 3"
    by (simp add: report_eof_three_def dual_report_def touch_rec_def)
  have b1: "second_touch_used report_lift_mid_frame"
    by (simp add: second_touch_used_def report_lift_mid_frame_def dual_report_def touch_rec_def)
  have b2: "hidpp_touchpad_raw_xy_event True (wtp_slots True False False False) raw_xy_zero
       report_lift_mid_frame =
     Inr (1, wtp_slots False True True True,
          [Input_Mt_Slot 0, Input_Mt_Report_Slot_State MT_TOOL_FINGER False,
           Input_Mt_Slot 1, Input_Mt_Report_Slot_State MT_TOOL_FINGER True,
           Input_Event EV_ABS ABS_MT_POSITION_X 261,
           Input_Event EV_ABS ABS_MT_POSITION_Y 519,
           Input_Event EV_ABS ABS_MT_PRESSURE 9])"
    by code_simp
  from second_touch_record_condition[of report_eof_three report_eof_three_other True wtp_probe
      raw_xy_zero raw_xy_zero] a1 a2 a3 c1 c2
  have first: "hidpp_touchpad_raw_xy_event True wtp_probe raw_xy_zero report_eof_three_other =
     hidpp_touchpad_raw_xy_event True wtp_probe raw_xy_zero report_eof_three \<and>
     wtp_touch_events wtp_probe (hidpp_touchpad_raw_xy_decode raw_xy_zero report_eof_three) =
     wtp_touch_event wtp_probe
       (hidpp_touchpad_touch_event (fst (touches report_eof_three)) (fst (fingers raw_xy_zero)))"
    by simp
  from second_touch_record_condition[of report_lift_mid_frame report_lift_mid_frame True
      "wtp_slots True False False False" raw_xy_zero raw_xy_zero 1
      "wtp_slots False True True True"] b1 b2
  have second: "touch_state (slots (wtp_slots False True True True) !
      nat (uint (drop_bit 4 (touch_id (snd (touches report_lift_mid_frame)))) - 1)) =
     (drop_bit 6 (y_m (snd (touches report_lift_mid_frame))) \<noteq> 0)"
    by simp
  from a1 a2 a3 c1 c2 b1 b2 first second show ?thesis by simp
qed

section \<open>The buttons of the touch mouse\<close>

lemma mouse_report_buttons_nth:
  "n \<le> length dep \<Longrightarrow>
   length (mouse_report_buttons b1 n dep) = length dep \<and>
   (\<forall>j < length dep. mouse_report_buttons b1 n dep ! j =
      (if j < n then arbiter (dep ! j) (Some (DEPRESSOR_MOUSE, b1 AND push_bit j 1 \<noteq> 0))
       else dep ! j))"
proof (induction n)
  case 0
  then show ?case by simp
next
  case (Suc n)
  then have n: "n < length dep" by simp
  from Suc have ih: "length (mouse_report_buttons b1 n dep) = length dep"
    "\<And>j. j < length dep \<Longrightarrow> mouse_report_buttons b1 n dep ! j =
      (if j < n then arbiter (dep ! j) (Some (DEPRESSOR_MOUSE, b1 AND push_bit j 1 \<noteq> 0))
       else dep ! j)"
    by simp_all
  have at: "mouse_report_buttons b1 n dep ! n = dep ! n" using ih(2)[OF n] by simp
  show ?case
  proof (intro conjI allI impI)
    show "length (mouse_report_buttons b1 (Suc n) dep) = length dep"
      by (simp add: Let_def ih(1))
    fix j assume j: "j < length dep"
    show "mouse_report_buttons b1 (Suc n) dep ! j =
      (if j < Suc n then arbiter (dep ! j) (Some (DEPRESSOR_MOUSE, b1 AND push_bit j 1 \<noteq> 0))
       else dep ! j)"
    proof (cases "j = n")
      case True
      with n at ih(1) show ?thesis
        by (auto simp add: Let_def arbiter_def DEPRESSOR_NONE_def DEPRESSOR_MOUSE_def)
    next
      case False
      with j ih(1) ih(2)[OF j] show ?thesis
        by (auto simp add: Let_def nth_list_update less_Suc_eq)
    qed
  qed
qed

lemma emit_buttons_nth:
  assumes "emit_buttons fd bytes = Inr (fd', out)"
    and "length (button_depressor fd) = 3" and "i < 3"
  shows "button_depressor fd' ! i = arbiter (button_depressor fd ! i) (button_source fd bytes i)"
    and "length (button_depressor fd') = 3"
    and "mt_feature_index fd' = mt_feature_index fd"
    and "feature_1b03 fd' = feature_1b03 fd"
    and "ignore_mouse_report_buttons fd' = ignore_mouse_report_buttons fd"
proof -
  let ?dep = "button_depressor fd"
  define dep1 where "dep1 = (if bytes ! 0 = 0x2 \<and> \<not> ignore_mouse_report_buttons fd
                     then mouse_report_buttons (bytes ! 1) 3 ?dep else ?dep)"
  define dep2 where "dep2 = (if bytes ! 0 = 0x11 \<and> bytes ! 2 = feature_1b03 fd
                     then (if dep1 ! 2 = 0 \<and> bytes ! 5 \<noteq> 0 then dep1[2 := DEPRESSOR_1B03]
                           else if dep1 ! 2 = DEPRESSOR_1B03 \<and> bytes ! 5 = 0
                           then dep1[2 := DEPRESSOR_NONE]
                           else dep1)
                     else dep1)"
  define dep3 where "dep3 = (if bytes ! 0 = 0x11 \<and> bytes ! 2 = mt_feature_index fd \<and>
                        drop_bit 4 (bytes ! 3) = 1
                     then (if dep2 ! 0 = 0 \<and> bytes ! 4 AND 2 \<noteq> 0
                           then dep2[0 := DEPRESSOR_RAWPTS]
                           else if dep2 ! 0 = DEPRESSOR_RAWPTS \<and> bytes ! 4 AND 2 = 0
                           then dep2[0 := DEPRESSOR_NONE]
                           else dep2)
                     else dep2)"
  from assms(1) have fd': "fd' = fd\<lparr>button_depressor := dep3\<rparr>"
    unfolding emit_buttons_def Let_def dep1_def dep2_def dep3_def
    by (auto split: if_splits)
  from mouse_report_buttons_nth[of 3 ?dep "bytes ! 1"] assms(2)
  have m: "length (mouse_report_buttons (bytes ! 1) 3 ?dep) = 3"
    "\<And>j. j < 3 \<Longrightarrow> mouse_report_buttons (bytes ! 1) 3 ?dep ! j =
       arbiter (?dep ! j) (Some (DEPRESSOR_MOUSE, bytes ! 1 AND push_bit j 1 \<noteq> 0))"
    by simp_all
  have l1: "length dep1 = 3" using m(1) assms(2) by (simp add: dep1_def)
  have d1: "dep1 ! j = (if bytes ! 0 = 0x2 \<and> \<not> ignore_mouse_report_buttons fd
       then arbiter (?dep ! j) (Some (DEPRESSOR_MOUSE, bytes ! 1 AND push_bit j 1 \<noteq> 0))
       else ?dep ! j)" if "j < 3" for j
    using m(2)[OF that] by (simp add: dep1_def)
  have l2: "length dep2 = 3" using l1 by (simp add: dep2_def)
  have d2: "dep2 ! j = (if bytes ! 0 = 0x11 \<and> bytes ! 2 = feature_1b03 fd \<and> j = 2
       then arbiter (dep1 ! 2) (Some (DEPRESSOR_1B03, bytes ! 5 \<noteq> 0))
       else dep1 ! j)" if "j < 3" for j
    using that l1
    by (auto simp add: dep2_def arbiter_def DEPRESSOR_NONE_def nth_list_update)
  have l3: "length dep3 = 3" using l2 by (simp add: dep3_def)
  have d3: "dep3 ! j = (if bytes ! 0 = 0x11 \<and> bytes ! 2 = mt_feature_index fd \<and>
                            drop_bit 4 (bytes ! 3) = 1 \<and> j = 0
       then arbiter (dep2 ! 0) (Some (DEPRESSOR_RAWPTS, bytes ! 4 AND 2 \<noteq> 0))
       else dep2 ! j)" if "j < 3" for j
    using that l2
    by (auto simp add: dep3_def arbiter_def DEPRESSOR_NONE_def nth_list_update)
  show "length (button_depressor fd') = 3" by (simp add: fd' l3)
  have "dep3 ! i = arbiter (?dep ! i) (button_source fd bytes i)"
    using assms(3) d1[of i] d1[of 0] d1[of 2] d2[of i] d2[of 0] d3[of i]
    by (auto simp add: button_source_def arbiter_def)
  then show "button_depressor fd' ! i =
             arbiter (button_depressor fd ! i) (button_source fd bytes i)"
    by (simp add: fd')
  show "mt_feature_index fd' = mt_feature_index fd"
    and "feature_1b03 fd' = feature_1b03 fd"
    and "ignore_mouse_report_buttons fd' = ignore_mouse_report_buttons fd"
    by (simp_all add: fd')
qed


text \<open>A report that is a whole \<open>struct hidpp_report\<close> is processed to the end.\<close>

lemma emit_buttons_returns:
  "6 \<le> length bytes \<Longrightarrow> \<exists>fd1 out1. emit_buttons fd bytes = Inr (fd1, out1)"
  unfolding emit_buttons_def Let_def by simp

lemma emit_buttons_seq_returns:
  "\<forall>b \<in> set reports. 6 \<le> length b \<Longrightarrow>
   \<exists>fd' out. emit_buttons_seq fd reports = Inr (fd', out)"
proof (induction reports arbitrary: fd)
  case Nil
  show ?case by simp
next
  case (Cons bytes rest)
  from Cons.prems have "6 \<le> length bytes" by simp
  from emit_buttons_returns[OF this] obtain fd1 out1 where
    e: "emit_buttons fd bytes = Inr (fd1, out1)" by blast
  from Cons.prems have "\<forall>b \<in> set rest. 6 \<le> length b" by simp
  from Cons.IH[OF this] obtain fd2 out2 where
    r: "emit_buttons_seq fd1 rest = Inr (fd2, out2)" by blast
  show ?case by (simp add: e r)
qed

lemma arbiter_keep:
  "d \<noteq> DEPRESSOR_NONE \<Longrightarrow> obs \<noteq> Some (d, False) \<Longrightarrow> arbiter d obs = d"
  by (auto simp add: arbiter_def split: option.splits)

lemma foldl_arbiter_keep:
  "d \<noteq> DEPRESSOR_NONE \<Longrightarrow> \<forall>ob \<in> set obs. ob \<noteq> Some (d, False) \<Longrightarrow>
   foldl arbiter d obs = d"
  by (induction obs) (simp_all add: arbiter_keep)

lemma button_source_cong:
  "mt_feature_index fd' = mt_feature_index fd \<Longrightarrow> feature_1b03 fd' = feature_1b03 fd \<Longrightarrow>
   ignore_mouse_report_buttons fd' = ignore_mouse_report_buttons fd \<Longrightarrow>
   button_source fd' bytes i = button_source fd bytes i"
  by (simp add: button_source_def)

lemma emit_buttons_seq_nth:
  "emit_buttons_seq fd reports = Inr (fd', out) \<Longrightarrow>
   length (button_depressor fd) = 3 \<Longrightarrow> i < 3 \<Longrightarrow>
   button_depressor fd' ! i =
     foldl arbiter (button_depressor fd ! i) (map (\<lambda>b. button_source fd b i) reports)"
proof (induction reports arbitrary: fd out)
  case Nil
  then show ?case by simp
next
  case (Cons bytes rest)
  from Cons.prems(1) obtain fd1 out1 out2 where
    e: "emit_buttons fd bytes = Inr (fd1, out1)" and
    r: "emit_buttons_seq fd1 rest = Inr (fd', out2)"
    by (auto split: sum.splits)
  note n = emit_buttons_nth[OF e Cons.prems(2,3)]
  have src: "button_source fd1 b i = button_source fd b i" for b
    using n(3,4,5) by (rule button_source_cong)
  from Cons.IH[OF r n(2) Cons.prems(3)] show ?case
    by (simp add: n(1) src)
qed

text \<open>
  C3. For each of the three buttons, one report changes the depressor exactly as
  the rule of the specification (\<open>arbiter\<close>) allows for what the report says about
  that button: the depressor changes only from \<open>None\<close> to the kind of this report,
  on a "down", or from the kind of this report to \<open>None\<close>, on an "up". Over a
  sequence of reports the depressor is the rule folded over the reports. So once
  a kind holds the button down, it stays attributed to that kind as long as no
  report of that same kind shows the button up, whatever the other kinds report.
\<close>

theorem button_depressor_rule:
  assumes "length (button_depressor fd) = 3" and "i < 3"
  shows
   "(emit_buttons fd bytes = Inr (fd1, out1) \<longrightarrow>
       button_depressor fd1 ! i =
         arbiter (button_depressor fd ! i) (button_source fd bytes i) \<and>
       (button_depressor fd1 ! i \<noteq> button_depressor fd ! i \<longrightarrow>
          (\<exists>k down. button_source fd bytes i = Some (k, down) \<and> k \<noteq> DEPRESSOR_NONE \<and>
             ((down \<and> button_depressor fd ! i = DEPRESSOR_NONE \<and>
               button_depressor fd1 ! i = k) \<or>
              (\<not> down \<and> button_depressor fd ! i = k \<and>
               button_depressor fd1 ! i = DEPRESSOR_NONE))))) \<and>
    (emit_buttons_seq fd reports = Inr (fd', out) \<longrightarrow>
       button_depressor fd' ! i =
         foldl arbiter (button_depressor fd ! i) (map (\<lambda>b. button_source fd b i) reports) \<and>
       (button_depressor fd ! i \<noteq> DEPRESSOR_NONE \<and>
        (\<forall>b \<in> set reports. button_source fd b i \<noteq> Some (button_depressor fd ! i, False)) \<longrightarrow>
        button_depressor fd' ! i = button_depressor fd ! i))"
proof (intro conjI impI)
  assume e: "emit_buttons fd bytes = Inr (fd1, out1)"
  show st: "button_depressor fd1 ! i =
         arbiter (button_depressor fd ! i) (button_source fd bytes i)"
    by (rule emit_buttons_nth(1)[OF e assms])
  assume ch: "button_depressor fd1 ! i \<noteq> button_depressor fd ! i"
  with st obtain k down where s: "button_source fd bytes i = Some (k, down)"
    by (cases "button_source fd bytes i") (auto simp add: arbiter_def)
  have k: "k \<noteq> DEPRESSOR_NONE"
    using s by (auto simp add: button_source_def DEPRESSOR_NONE_def DEPRESSOR_MOUSE_def
        DEPRESSOR_1B03_def DEPRESSOR_RAWPTS_def split: if_splits)
  from st ch s k show "\<exists>k down. button_source fd bytes i = Some (k, down) \<and> k \<noteq> DEPRESSOR_NONE \<and>
             ((down \<and> button_depressor fd ! i = DEPRESSOR_NONE \<and>
               button_depressor fd1 ! i = k) \<or>
              (\<not> down \<and> button_depressor fd ! i = k \<and>
               button_depressor fd1 ! i = DEPRESSOR_NONE))"
    by (auto simp add: arbiter_def split: if_splits)
next
  assume e: "emit_buttons_seq fd reports = Inr (fd', out)"
  show sq: "button_depressor fd' ! i =
         foldl arbiter (button_depressor fd ! i) (map (\<lambda>b. button_source fd b i) reports)"
    by (rule emit_buttons_seq_nth[OF e assms])
  assume a: "button_depressor fd ! i \<noteq> DEPRESSOR_NONE \<and>
        (\<forall>b \<in> set reports. button_source fd b i \<noteq> Some (button_depressor fd ! i, False))"
  then show "button_depressor fd' ! i = button_depressor fd ! i"
    unfolding sq by (intro foldl_arbiter_keep) auto
qed


theorem button_depressor_rule_witness:
  "length (button_depressor tm_buttons) = 3 \<and> (0::nat) < 3 \<and>
   emit_buttons tm_buttons mouse_left_down =
     Inr (tm_left_by_mouse,
          [Input_Report_Key BTN_LEFT True, Input_Report_Key BTN_RIGHT False,
           Input_Report_Key BTN_MIDDLE False]) \<and>
   button_depressor tm_left_by_mouse ! 0 \<noteq> button_depressor tm_buttons ! 0 \<and>
   button_depressor tm_left_by_mouse ! 0 =
     arbiter (button_depressor tm_buttons ! 0) (button_source tm_buttons mouse_left_down 0) \<and>
   length (button_depressor tm_left_by_mouse) = 3 \<and>
   emit_buttons_seq tm_left_by_mouse [rawpts_left_down, rawpts_left_up] =
     Inr (tm_left_by_mouse,
          [Input_Report_Key BTN_LEFT True, Input_Report_Key BTN_RIGHT False,
           Input_Report_Key BTN_MIDDLE False, Input_Report_Key BTN_LEFT True,
           Input_Report_Key BTN_RIGHT False, Input_Report_Key BTN_MIDDLE False]) \<and>
   button_depressor tm_left_by_mouse ! 0 = DEPRESSOR_MOUSE \<and>
   button_source tm_left_by_mouse rawpts_left_down 0 = Some (DEPRESSOR_RAWPTS, True) \<and>
   button_source tm_left_by_mouse rawpts_left_up 0 = Some (DEPRESSOR_RAWPTS, False) \<and>
   foldl arbiter (button_depressor tm_left_by_mouse ! 0)
     (map (\<lambda>b. button_source tm_left_by_mouse b 0) [rawpts_left_down, rawpts_left_up]) =
     DEPRESSOR_MOUSE"
proof -
  have l1: "length (button_depressor tm_buttons) = 3"
    by (simp add: tm_buttons_def tm_probe_def)
  have l2: "length (button_depressor tm_left_by_mouse) = 3"
    by (simp add: tm_left_by_mouse_def)
  have i: "(0::nat) < 3" by simp
  have e1: "emit_buttons tm_buttons mouse_left_down =
     Inr (tm_left_by_mouse,
          [Input_Report_Key BTN_LEFT True, Input_Report_Key BTN_RIGHT False,
           Input_Report_Key BTN_MIDDLE False])"
    by code_simp
  have ch: "button_depressor tm_left_by_mouse ! 0 \<noteq> button_depressor tm_buttons ! 0"
    by (simp add: tm_left_by_mouse_def tm_buttons_def tm_probe_def DEPRESSOR_MOUSE_def)
  have e2: "emit_buttons_seq tm_left_by_mouse [rawpts_left_down, rawpts_left_up] =
     Inr (tm_left_by_mouse,
          [Input_Report_Key BTN_LEFT True, Input_Report_Key BTN_RIGHT False,
           Input_Report_Key BTN_MIDDLE False, Input_Report_Key BTN_LEFT True,
           Input_Report_Key BTN_RIGHT False, Input_Report_Key BTN_MIDDLE False])"
    by code_simp
  have d: "button_depressor tm_left_by_mouse ! 0 = DEPRESSOR_MOUSE"
    by (simp add: tm_left_by_mouse_def)
  have s1: "button_source tm_left_by_mouse rawpts_left_down 0 = Some (DEPRESSOR_RAWPTS, True)"
    by (simp add: button_source_def tm_left_by_mouse_def tm_buttons_def tm_probe_def
        rawpts_left_down_def)
  have s2: "button_source tm_left_by_mouse rawpts_left_up 0 = Some (DEPRESSOR_RAWPTS, False)"
    by (simp add: button_source_def tm_left_by_mouse_def tm_buttons_def tm_probe_def
        rawpts_left_up_def)
  from button_depressor_rule[OF l1 i, of mouse_left_down tm_left_by_mouse
      "[Input_Report_Key BTN_LEFT True, Input_Report_Key BTN_RIGHT False,
        Input_Report_Key BTN_MIDDLE False]"] e1
  have first: "button_depressor tm_left_by_mouse ! 0 =
     arbiter (button_depressor tm_buttons ! 0) (button_source tm_buttons mouse_left_down 0)"
    by simp
  from button_depressor_rule[OF l2 i, of _ _ _ "[rawpts_left_down, rawpts_left_up]"
      tm_left_by_mouse] e2 d
  have second: "foldl arbiter (button_depressor tm_left_by_mouse ! 0)
     (map (\<lambda>b. button_source tm_left_by_mouse b 0) [rawpts_left_down, rawpts_left_up]) =
     DEPRESSOR_MOUSE"
    by simp
  from l1 l2 e1 ch first e2 d s1 s2 second show ?thesis by simp
qed

section \<open>The tracking-id counter over frames\<close>

lemma allocated_ids_append:
  "allocated_ids (a @ b) = allocated_ids a @ allocated_ids b"
  by (induction a) (auto split: option.splits)

lemma counter_ids_append:
  "counter_ids v (m + n) = counter_ids v m @ counter_ids ((counter_next ^^ m) v) n"
  by (induction m arbitrary: v) (simp_all add: funpow_swap1)

lemma counter_next_range:
  "1 \<le> v \<and> v \<le> 0xFFFE \<Longrightarrow> 1 \<le> counter_next v \<and> counter_next v \<le> 0xFFFE"
  by (auto simp add: counter_next_def)

lemma counter_ids_range:
  "1 \<le> v \<and> v \<le> 0xFFFE \<Longrightarrow> \<forall>w \<in> set (counter_ids v k). 1 \<le> w \<and> w \<le> 0xFFFE"
proof (induction k arbitrary: v)
  case 0
  then show ?case by simp
next
  case (Suc k)
  from Suc.IH[OF counter_next_range[OF Suc.prems]] Suc.prems show ?case by simp
qed

lemma counter_ids_length: "length (counter_ids v k) = k"
  by (induction k arbitrary: v) simp_all

lemma counter_ids_succ:
  "Suc j < k \<Longrightarrow> counter_ids v k ! Suc j = counter_next (counter_ids v k ! j)"
proof (induction k arbitrary: v j)
  case 0
  then show ?case by simp
next
  case (Suc k)
  show ?case
  proof (cases j)
    case 0
    with Suc.prems show ?thesis by (cases k) simp_all
  next
    case (Suc j')
    with Suc.prems Suc.IH[of j' "counter_next v"] show ?thesis by simp
  qed
qed

lemma uint_next_id:
  assumes "1 \<le> v" and "v \<le> 0xFFFE"
  shows "uint (next_id v) = counter_next (uint v)"
proof -
  from assms(2) have le: "uint v \<le> 0xFFFE" by (simp add: word_le_def)
  have eq: "(v = 0xFFFE) = (uint v = 0xFFFE)" by (simp add: word_uint_eq_iff)
  have up: "uint (v + 1) = uint v + 1"
    using le by (simp add: uint_word_ariths take_bit_int_eq_self)
  have "(v + 1 = 0xffff) = (uint (v + 1) = 0xFFFF)" by (simp add: word_uint_eq_iff)
  with up have w: "(v + 1 = 0xffff) = (uint v = 0xFFFE)" by simp
  show ?thesis
    using up w by (simp add: next_id_def counter_next_def)
qed

lemma valid_int: "(1 \<le> (v::u16) \<and> v \<le> 0xFFFE) = (1 \<le> uint v \<and> uint v \<le> 0xFFFE)"
  by (simp add: word_le_def)

lemma emit_finger_ids:
  assumes "1 \<le> next_tracking_id fd" and "next_tracking_id fd \<le> 0xFFFE"
    and "emit_finger sx sy bytes i fd su = (fd', su', calls)"
  shows "allocated_ids calls =
           counter_ids (uint (next_tracking_id fd)) (length (allocated_ids calls)) \<and>
         uint (next_tracking_id fd') =
           (counter_next ^^ length (allocated_ids calls)) (uint (next_tracking_id fd)) \<and>
         1 \<le> next_tracking_id fd' \<and> next_tracking_id fd' \<le> 0xFFFE"
proof (cases "sentinel_rec bytes i")
  case True
  with assms show ?thesis
    by (auto simp add: emit_finger_sentinel tracking_id_of_def)
next
  case False
  have nn: "uint (next_tracking_id fd) \<noteq> - 1"
    using uint_ge_0[of "next_tracking_id fd"] by linarith
  have v': "1 \<le> next_id (next_tracking_id fd) \<and> next_id (next_tracking_id fd) \<le> 0xFFFE"
    unfolding valid_int uint_next_id[OF assms(1,2)]
    using assms(1,2) by (intro counter_next_range) (simp add: word_le_def)
  from False assms(3) nn v' assms(1,2) show ?thesis
    by (auto simp add: emit_finger_contact tracking_id_of_def uint_next_id
        split: if_splits)
qed


lemma ids_compose:
  assumes "a = counter_ids v (length a)" and "v1 = (counter_next ^^ length a) v"
    and "b = counter_ids v1 (length b)" and "v2 = (counter_next ^^ length b) v1"
  shows "a @ b = counter_ids v (length (a @ b)) \<and> v2 = (counter_next ^^ length (a @ b)) v"
proof -
  have "counter_ids v (length a + length b) = a @ b"
    using assms(1,2,3) by (simp add: counter_ids_append)
  moreover have "(counter_next ^^ (length b + length a)) v = v2"
    using assms(2,4) by (simp add: funpow_add)
  ultimately show ?thesis by (simp add: add.commute)
qed

lemma loop_ids:
  assumes "1 \<le> next_tracking_id fd" and "next_tracking_id fd \<le> 0xFFFE"
  shows "emit_fingers_loop sx sy bytes n fd = (fd', su, out) \<Longrightarrow>
         allocated_ids out =
           counter_ids (uint (next_tracking_id fd)) (length (allocated_ids out)) \<and>
         uint (next_tracking_id fd') =
           (counter_next ^^ length (allocated_ids out)) (uint (next_tracking_id fd)) \<and>
         1 \<le> next_tracking_id fd' \<and> next_tracking_id fd' \<le> 0xFFFE"
proof (induction n arbitrary: fd' su out)
  case 0
  with assms show ?case by simp
next
  case (Suc n)
  obtain fd1 su1 out1 where l: "emit_fingers_loop sx sy bytes n fd = (fd1, su1, out1)"
    by (cases "emit_fingers_loop sx sy bytes n fd") auto
  obtain fd2 su2 calls where f: "emit_finger sx sy bytes n fd1 su1 = (fd2, su2, calls)"
    by (cases "emit_finger sx sy bytes n fd1 su1") auto
  from Suc.prems l f have eq: "fd' = fd2" "out = out1 @ calls" by simp_all
  note ih = Suc.IH[OF l]
  from ih have v1: "1 \<le> next_tracking_id fd1" "next_tracking_id fd1 \<le> 0xFFFE" by blast+
  note st = emit_finger_ids[OF v1 f]
  from ih have a1: "allocated_ids out1 =
      counter_ids (uint (next_tracking_id fd)) (length (allocated_ids out1))"
    and a2: "uint (next_tracking_id fd1) =
      (counter_next ^^ length (allocated_ids out1)) (uint (next_tracking_id fd))"
    by blast+
  from st have b1: "allocated_ids calls =
      counter_ids (uint (next_tracking_id fd1)) (length (allocated_ids calls))"
    and b2: "uint (next_tracking_id fd2) =
      (counter_next ^^ length (allocated_ids calls)) (uint (next_tracking_id fd1))"
    and v2: "1 \<le> next_tracking_id fd2 \<and> next_tracking_id fd2 \<le> 0xFFFE"
    by blast+
  from ids_compose[OF a1 a2 b1 b2] v2 show ?case
    unfolding eq allocated_ids_append by blast
qed

lemma emit_fingers_ids:
  assumes "1 \<le> next_tracking_id fd" and "next_tracking_id fd \<le> 0xFFFE"
    and "emit_fingers fd bytes = Inr (fd', out)"
  shows "allocated_ids out =
           counter_ids (uint (next_tracking_id fd)) (length (allocated_ids out)) \<and>
         uint (next_tracking_id fd') =
           (counter_next ^^ length (allocated_ids out)) (uint (next_tracking_id fd)) \<and>
         1 \<le> next_tracking_id fd' \<and> next_tracking_id fd' \<le> 0xFFFE"
proof -
  from assms(3) obtain fd1 su out1 where
    l: "emit_fingers_loop
       (origin_position (tp_info fd) = ORIGIN_LOWER_RIGHT \<or>
        origin_position (tp_info fd) = ORIGIN_UPPER_RIGHT)
       (origin_position (tp_info fd) = ORIGIN_LOWER_LEFT \<or>
        origin_position (tp_info fd) = ORIGIN_LOWER_RIGHT)
       bytes (unat (max_fingers (tp_info fd))) fd = (fd1, su, out1)"
    and fd': "fd' = fd1\<lparr>prev_slots_used := su\<rparr>"
    and out: "out = out1 @
           [Input_Event EV_KEY BTN_TOOL_FINGER (if su = 1 then 1 else 0),
            Input_Event EV_KEY BTN_TOOL_DOUBLETAP (if su = 2 then 1 else 0),
            Input_Event EV_KEY BTN_TOOL_TRIPLETAP (if su = 3 then 1 else 0),
            Input_Event EV_KEY BTN_TOOL_QUADTAP (if su = 4 then 1 else 0)]"
    by (rule emit_fingers_Inr)
  have "allocated_ids out = allocated_ids out1"
    by (simp add: out allocated_ids_append tracking_id_of_def)
  with loop_ids[OF assms(1,2) l] show ?thesis unfolding fd' by simp
qed

lemma emit_frames_ids:
  "1 \<le> next_tracking_id fd \<Longrightarrow> next_tracking_id fd \<le> 0xFFFE \<Longrightarrow>
   emit_frames fd frames = Inr (fd', out) \<Longrightarrow>
   allocated_ids out =
     counter_ids (uint (next_tracking_id fd)) (length (allocated_ids out)) \<and>
   uint (next_tracking_id fd') =
     (counter_next ^^ length (allocated_ids out)) (uint (next_tracking_id fd)) \<and>
   1 \<le> next_tracking_id fd' \<and> next_tracking_id fd' \<le> 0xFFFE"
proof (induction frames arbitrary: fd out)
  case Nil
  then show ?case by simp
next
  case (Cons bytes rest)
  from Cons.prems(3) obtain fd1 out1 out2 where
    e: "emit_fingers fd bytes = Inr (fd1, out1)" and
    r: "emit_frames fd1 rest = Inr (fd', out2)" and
    out: "out = out1 @ out2"
    by (auto split: sum.splits)
  note st = emit_fingers_ids[OF Cons.prems(1,2) e]
  from st have v1: "1 \<le> next_tracking_id fd1" "next_tracking_id fd1 \<le> 0xFFFE" by blast+
  note ih = Cons.IH[OF v1 r]
  from st have a1: "allocated_ids out1 =
      counter_ids (uint (next_tracking_id fd)) (length (allocated_ids out1))"
    and a2: "uint (next_tracking_id fd1) =
      (counter_next ^^ length (allocated_ids out1)) (uint (next_tracking_id fd))"
    by blast+
  from ih have b1: "allocated_ids out2 =
      counter_ids (uint (next_tracking_id fd1)) (length (allocated_ids out2))"
    and b2: "uint (next_tracking_id fd') =
      (counter_next ^^ length (allocated_ids out2)) (uint (next_tracking_id fd1))"
    and v2: "1 \<le> next_tracking_id fd' \<and> next_tracking_id fd' \<le> 0xFFFE"
    by blast+
  from ids_compose[OF a1 a2 b1 b2] v2 show ?case
    unfolding out allocated_ids_append by blast
qed

lemma slot_allocation:
  assumes "emit_fingers fd bytes = Inr (fd', out)"
    and "max_fingers (tp_info fd) \<le> 8" and "i < unat (max_fingers (tp_info fd))"
  shows "allocated_ids (slot_calls (int i) cur out) =
           (if \<not> bit (prev_slots_used fd) i \<and> bit (prev_slots_used fd') i
            then [uint (next_tracking_id (tm_data_at fd bytes i))] else [])"
    and "bit (prev_slots_used fd') i = (\<not> sentinel_rec bytes i)"
proof -
  from assms(2) have "unat (max_fingers (tp_info fd)) \<le> 8"
    by (simp add: word_le_nat_alt)
  with assms(3) have i8: "i < 8" by simp
  from assms(1) obtain fd1 su out1 where
    l: "emit_fingers_loop
       (origin_position (tp_info fd) = ORIGIN_LOWER_RIGHT \<or>
        origin_position (tp_info fd) = ORIGIN_UPPER_RIGHT)
       (origin_position (tp_info fd) = ORIGIN_LOWER_LEFT \<or>
        origin_position (tp_info fd) = ORIGIN_LOWER_RIGHT)
       bytes (unat (max_fingers (tp_info fd))) fd = (fd1, su, out1)"
    and fd': "fd' = fd1\<lparr>prev_slots_used := su\<rparr>"
    by (rule emit_fingers_Inr)
  show b: "bit (prev_slots_used fd') i = (\<not> sentinel_rec bytes i)"
    using loop_slots_used[OF l, of i] assms(3) i8 by (simp add: fd')
  have nn: "uint (next_tracking_id (tm_data_at fd bytes i)) \<noteq> - 1"
    using uint_ge_0[of "next_tracking_id (tm_data_at fd bytes i)"] by linarith
  show "allocated_ids (slot_calls (int i) cur out) =
           (if \<not> bit (prev_slots_used fd) i \<and> bit (prev_slots_used fd') i
            then [uint (next_tracking_id (tm_data_at fd bytes i))] else [])"
  proof (cases "sentinel_rec bytes i")
    case True
    with slot_calls_emit_fingers[OF assms(1), of i cur] assms(3) b show ?thesis
      by (simp add: emit_finger_sentinel tracking_id_of_def)
  next
    case False
    with slot_calls_emit_fingers[OF assms(1), of i cur] assms(3) b nn
      tm_data_at_info[of fd bytes i]
    show ?thesis
      by (simp add: emit_finger_contact tracking_id_of_def and_slot_mask and_slot_mask2)
  qed
qed


text \<open>
  C6, as stated, fails in its last part. \<open>slot_mask\<close> is a \<open>u8\<close>: for slot 8 it is
  \<open>(u8)(1 << 8) = 0\<close>, so the slot never counts as used in the previous frame. On
  a device that announces nine fingers, with all nine slots touched in two frames
  in a row, slot 8 stays active and is given a tracking id in each of the two
  frames: 9, then 10, with no "no contact" event between them.
\<close>

theorem tracking_id_renewed_for_ninth_slot:
  "\<not> sentinel_rec frame_nine 8 \<and>
   frames_slot_tracking tm_nine [frame_nine, frame_nine] 8 = Inr [9, 10]"
  by code_simp

text \<open>
  C6, amended. The counter starts at 1 (\<open>tm_probe\<close>). From any state whose counter
  is in 1 .. 0xFFFE, every sequence of frames that hold a record for every slot of
  the device (\<open>4 * max_fingers\<close> bytes each, slot numbers valid shift counts) is
  processed to the end, and: every tracking id given out is in 1 .. 0xFFFE, the
  ids given out are, in order, the values of the specification's counter from the
  current one on (each id is followed by its successor, and 0xFFFE by 1), and the
  counter stays in 1 .. 0xFFFE. Within one frame, on a device of at most 8 fingers
  (the width of the slot masks), slot \<open>i\<close> is given an id exactly when it was not
  used in the previous frame and is used in this one, exactly one then and none
  otherwise; a slot is used in a frame exactly when its record is not the
  sentinel.
\<close>

theorem tracking_id_allocation:
  assumes "1 \<le> next_tracking_id fd" and "next_tracking_id fd \<le> 0xFFFE"
    and "unat (max_fingers (tp_info fd)) \<le> 32"
    and "\<forall>frame \<in> set frames. 4 * unat (max_fingers (tp_info fd)) \<le> length frame"
  shows
   "next_tracking_id (tm_probe t620) = 1 \<and>
    (\<exists>fd' out. emit_frames fd frames = Inr (fd', out) \<and>
       (\<forall>v \<in> set (allocated_ids out). 1 \<le> v \<and> v \<le> 0xFFFE) \<and>
       allocated_ids out =
         counter_ids (uint (next_tracking_id fd)) (length (allocated_ids out)) \<and>
       (\<forall>j. Suc j < length (allocated_ids out) \<longrightarrow>
          allocated_ids out ! Suc j =
            (if allocated_ids out ! j = 0xFFFE then 1 else allocated_ids out ! j + 1)) \<and>
       1 \<le> next_tracking_id fd' \<and> next_tracking_id fd' \<le> 0xFFFE) \<and>
    (max_fingers (tp_info fd) \<le> 8 \<and>
     4 * unat (max_fingers (tp_info fd)) \<le> length bytes \<and>
     i < unat (max_fingers (tp_info fd)) \<longrightarrow>
       (\<exists>fd1 out1. emit_fingers fd bytes = Inr (fd1, out1) \<and>
          (\<forall>cur. allocated_ids (slot_calls (int i) cur out1) =
             (if \<not> bit (prev_slots_used fd) i \<and> bit (prev_slots_used fd1) i
              then [uint (next_tracking_id (tm_data_at fd bytes i))] else [])) \<and>
          bit (prev_slots_used fd1) i = (\<not> sentinel_rec bytes i)))"
proof (intro conjI impI)
  show "next_tracking_id (tm_probe t620) = 1" by (simp add: tm_probe_def)
next
  from emit_frames_succeeds[OF assms(3,4)] obtain fd' out where
    e: "emit_frames fd frames = Inr (fd', out)" by blast
  note st = emit_frames_ids[OF assms(1,2) e]
  from st have ids: "allocated_ids out =
         counter_ids (uint (next_tracking_id fd)) (length (allocated_ids out))" by blast
  from st have v': "1 \<le> next_tracking_id fd'" "next_tracking_id fd' \<le> 0xFFFE" by blast+
  have v: "1 \<le> uint (next_tracking_id fd) \<and> uint (next_tracking_id fd) \<le> 0xFFFE"
    using assms(1,2) by (simp add: word_le_def)
  from counter_ids_range[OF v, of "length (allocated_ids out)"] ids
  have rng: "\<forall>v \<in> set (allocated_ids out). 1 \<le> v \<and> v \<le> 0xFFFE" by metis
  have suc: "\<forall>j. Suc j < length (allocated_ids out) \<longrightarrow>
          allocated_ids out ! Suc j =
            (if allocated_ids out ! j = 0xFFFE then 1 else allocated_ids out ! j + 1)"
  proof (intro allI impI)
    fix j assume j: "Suc j < length (allocated_ids out)"
    from counter_ids_succ[OF j, of "uint (next_tracking_id fd)"] ids
    have "allocated_ids out ! Suc j = counter_next (allocated_ids out ! j)" by metis
    then show "allocated_ids out ! Suc j =
            (if allocated_ids out ! j = 0xFFFE then 1 else allocated_ids out ! j + 1)"
      by (simp add: counter_next_def)
  qed
  from e rng ids suc v' show "\<exists>fd' out. emit_frames fd frames = Inr (fd', out) \<and>
       (\<forall>v \<in> set (allocated_ids out). 1 \<le> v \<and> v \<le> 0xFFFE) \<and>
       allocated_ids out =
         counter_ids (uint (next_tracking_id fd)) (length (allocated_ids out)) \<and>
       (\<forall>j. Suc j < length (allocated_ids out) \<longrightarrow>
          allocated_ids out ! Suc j =
            (if allocated_ids out ! j = 0xFFFE then 1 else allocated_ids out ! j + 1)) \<and>
       1 \<le> next_tracking_id fd' \<and> next_tracking_id fd' \<le> 0xFFFE"
    by blast
next
  assume a: "max_fingers (tp_info fd) \<le> 8 \<and>
     4 * unat (max_fingers (tp_info fd)) \<le> length bytes \<and>
     i < unat (max_fingers (tp_info fd))"
  then have a2: "max_fingers (tp_info fd) \<le> 8"
    and len: "4 * unat (max_fingers (tp_info fd)) \<le> length bytes"
    and a3: "i < unat (max_fingers (tp_info fd))"
    by blast+
  from emit_fingers_succeeds[OF len assms(3)] obtain fd1 out1 where
    a1: "emit_fingers fd bytes = Inr (fd1, out1)" by blast
  have "\<forall>cur. allocated_ids (slot_calls (int i) cur out1) =
         (if \<not> bit (prev_slots_used fd) i \<and> bit (prev_slots_used fd1) i
          then [uint (next_tracking_id (tm_data_at fd bytes i))] else [])"
    using slot_allocation(1)[OF a1 a2 a3] by blast
  moreover have "bit (prev_slots_used fd1) i = (\<not> sentinel_rec bytes i)"
    by (rule slot_allocation(2)[OF a1 a2 a3])
  ultimately show "\<exists>fd1 out1. emit_fingers fd bytes = Inr (fd1, out1) \<and>
          (\<forall>cur. allocated_ids (slot_calls (int i) cur out1) =
             (if \<not> bit (prev_slots_used fd) i \<and> bit (prev_slots_used fd1) i
              then [uint (next_tracking_id (tm_data_at fd bytes i))] else [])) \<and>
          bit (prev_slots_used fd1) i = (\<not> sentinel_rec bytes i)"
    using a1 by blast
qed


lemma emit_both_last:
  "emit_fingers tm_two_last frame_both =
     Inr (tm_two\<lparr>next_tracking_id := 2, prev_slots_used := 3\<rparr>, frame_both_calls 0xFFFE 1)"
  by code_simp

theorem tracking_id_allocation_witness:
  "1 \<le> next_tracking_id tm_two_last \<and> next_tracking_id tm_two_last \<le> 0xFFFE \<and>
   unat (max_fingers (tp_info tm_two_last)) \<le> 32 \<and>
   4 * unat (max_fingers (tp_info tm_two_last)) \<le> length frame_both \<and>
   emit_frames tm_two_last [frame_both] =
     Inr (tm_two\<lparr>next_tracking_id := 2, prev_slots_used := 3\<rparr>, frame_both_calls 0xFFFE 1) \<and>
   allocated_ids (frame_both_calls 0xFFFE 1) = [0xFFFE, 1] \<and>
   allocated_ids (frame_both_calls 0xFFFE 1) =
     counter_ids (uint (next_tracking_id tm_two_last))
       (length (allocated_ids (frame_both_calls 0xFFFE 1))) \<and>
   emit_fingers tm_two_last frame_both =
     Inr (tm_two\<lparr>next_tracking_id := 2, prev_slots_used := 3\<rparr>, frame_both_calls 0xFFFE 1) \<and>
   max_fingers (tp_info tm_two_last) \<le> 8 \<and>
   1 < unat (max_fingers (tp_info tm_two_last)) \<and>
   \<not> bit (prev_slots_used tm_two_last) (1::nat) \<and>
   bit (prev_slots_used (tm_two\<lparr>next_tracking_id := 2, prev_slots_used := 3\<rparr>)) (1::nat) \<and>
   allocated_ids (slot_calls 1 0 (frame_both_calls 0xFFFE 1)) =
     [uint (next_tracking_id (tm_data_at tm_two_last frame_both 1))]"
proof -
  have v1: "1 \<le> next_tracking_id tm_two_last" by (simp add: tm_two_last_def)
  have v2: "next_tracking_id tm_two_last \<le> 0xFFFE" by (simp add: tm_two_last_def)
  have n32: "unat (max_fingers (tp_info tm_two_last)) \<le> 32"
    by (simp add: tm_two_last_def tm_two_def)
  have len: "4 * unat (max_fingers (tp_info tm_two_last)) \<le> length frame_both"
    by (simp add: tm_two_last_def tm_two_def frame_both_def)
  from len have wf: "\<forall>frame \<in> set [frame_both].
      4 * unat (max_fingers (tp_info tm_two_last)) \<le> length frame" by simp
  have fr: "emit_frames tm_two_last [frame_both] =
     Inr (tm_two\<lparr>next_tracking_id := 2, prev_slots_used := 3\<rparr>, frame_both_calls 0xFFFE 1)"
    by (simp add: emit_both_last)
  have ids: "allocated_ids (frame_both_calls 0xFFFE 1) = [0xFFFE, 1]"
    by (simp add: frame_both_calls_def tracking_id_of_def)
  have m1: "max_fingers (tp_info tm_two_last) \<le> 8"
    by (simp add: tm_two_last_def tm_two_def)
  have m2: "1 < unat (max_fingers (tp_info tm_two_last))"
    by (simp add: tm_two_last_def tm_two_def)
  have p1: "\<not> bit (prev_slots_used tm_two_last) (1::nat)"
    by (simp add: tm_two_last_def tm_two_def tm_probe_def)
  have p2: "bit (prev_slots_used (tm_two\<lparr>next_tracking_id := 2, prev_slots_used := 3\<rparr>)) (1::nat)"
    by (simp add: bit_iff_odd_drop_bit)
  note t = tracking_id_allocation[OF v1 v2 n32 wf, of True frame_both 1]
  from t obtain fd' out where
    e: "emit_frames tm_two_last [frame_both] = Inr (fd', out)" and
    c: "allocated_ids out =
         counter_ids (uint (next_tracking_id tm_two_last)) (length (allocated_ids out))"
    by blast
  from e fr have o: "out = frame_both_calls 0xFFFE 1" by simp
  from t m1 len m2 obtain fd1 out1 where
    e1: "emit_fingers tm_two_last frame_both = Inr (fd1, out1)" and
    c1: "allocated_ids (slot_calls (int 1) 0 out1) =
             (if \<not> bit (prev_slots_used tm_two_last) 1 \<and> bit (prev_slots_used fd1) 1
              then [uint (next_tracking_id (tm_data_at tm_two_last frame_both 1))] else [])"
    by blast
  from e1 have o1: "fd1 = tm_two\<lparr>next_tracking_id := 2, prev_slots_used := 3\<rparr>"
    "out1 = frame_both_calls 0xFFFE 1" by (simp_all add: emit_both_last)
  from c1 p1 p2 have c1': "allocated_ids (slot_calls 1 0 (frame_both_calls 0xFFFE 1)) =
     [uint (next_tracking_id (tm_data_at tm_two_last frame_both 1))]"
    unfolding o1 by simp
  from c have c': "allocated_ids (frame_both_calls 0xFFFE 1) =
     counter_ids (uint (next_tracking_id tm_two_last))
       (length (allocated_ids (frame_both_calls 0xFFFE 1)))"
    unfolding o .
  from v1 v2 n32 len fr ids c' emit_both_last m1 m2 p1 p2 c1' show ?thesis by blast
qed

section \<open>Tracking ids of the slots over frames\<close>

lemma ids_stable_append:
  "ids_stable s (a @ b) = (ids_stable s a \<and> ids_stable (foldl mt_sink_call s a) b)"
  by (induction a arbitrary: s) simp_all

lemma ids_unique_head: "ids_unique n s b \<Longrightarrow> distinct (active_ids n s)"
  by (cases b) simp_all

lemma ids_unique_append:
  "ids_unique n s (a @ b) = (ids_unique n s a \<and> ids_unique n (foldl mt_sink_call s a) b)"
  by (induction a arbitrary: s) (auto dest: ids_unique_head)

lemma active_ids_slot [simp]: "active_ids n (s\<lparr>sink_slot := j\<rparr>) = active_ids n s"
  by (simp add: active_ids_def)

lemma fresh_distinct: "fresh_ids c s \<Longrightarrow> distinct (active_ids n s)"
proof -
  assume f: "fresh_ids c s"
  have eq: "active_ids n s =
        map (\<lambda>i. sink_tracking s (int i)) (filter (\<lambda>i. sink_tracking s (int i) \<noteq> - 1) [0..<n])"
    by (simp add: active_ids_def filter_map comp_def)
  have "inj_on (\<lambda>i. sink_tracking s (int i)) {i. i < n \<and> sink_tracking s (int i) \<noteq> - 1}"
    using f unfolding fresh_ids_def inj_on_def by (metis (mono_tags, lifting) mem_Collect_eq of_nat_eq_iff)
  then show ?thesis
    unfolding eq by (simp add: distinct_map)
qed

lemma unat_next_id:
  assumes "unat v = c mod 65534 + 1"
  shows "unat (next_id v) = (c + 1) mod 65534 + 1"
proof -
  have r: "c mod 65534 < 65534" by simp
  from assms r have v: "1 \<le> v" "v \<le> 0xFFFE"
    by (simp_all add: word_le_nat_alt)
  have "uint (next_id v) = counter_next (int (unat v))"
    using uint_next_id[OF v] by simp
  then have "int (unat (next_id v)) = counter_next (int (c mod 65534 + 1))"
    using assms by simp
  then have "int (unat (next_id v)) =
             int (if c mod 65534 = 65533 then 1 else c mod 65534 + 2)"
    by (auto simp add: counter_next_def split: if_splits)
  then have "unat (next_id v) = (if c mod 65534 = 65533 then 1 else c mod 65534 + 2)"
    by (simp only: of_nat_eq_iff)
  moreover have "(c + 1) mod 65534 = (if c mod 65534 = 65533 then 0 else c mod 65534 + 1)"
    using mod_Suc[of c 65534] by auto
  ultimately show ?thesis by simp
qed


lemma coupled_release:
  "coupled n m su prev s \<Longrightarrow>
   coupled n (Suc m) su prev
     (s\<lparr>sink_slot := int m, sink_tracking := (sink_tracking s)(int m := - 1)\<rparr>)"
  unfolding coupled_def by (auto simp add: less_Suc_eq)

lemma coupled_assign:
  "coupled n m su prev s \<Longrightarrow> m < n \<Longrightarrow> m < 8 \<Longrightarrow>
   coupled n (Suc m) (su OR push_bit m 1) prev
     (s\<lparr>sink_slot := int m, sink_tracking := (sink_tracking s)(int m := v)\<rparr>)"
  unfolding coupled_def by (auto simp add: less_Suc_eq bit_simps)

lemma coupled_keep:
  "coupled n m su prev s \<Longrightarrow> m < 8 \<Longrightarrow>
   coupled n (Suc m) (su OR push_bit m 1) prev (s\<lparr>sink_slot := int m\<rparr>)"
  unfolding coupled_def by (auto simp add: less_Suc_eq bit_simps)

lemma coupled_free:
  assumes "coupled n m su prev s" and "\<not> bit prev m"
  shows "sink_tracking s (int m) = - 1"
proof (rule ccontr)
  assume "sink_tracking s (int m) \<noteq> - 1"
  with assms(1) have "if nat (int m) < m then bit su (nat (int m)) else bit prev (nat (int m))"
    unfolding coupled_def by blast
  with assms(2) show False by simp
qed

lemma fresh_release:
  "fresh_ids c s \<Longrightarrow>
   fresh_ids c (s\<lparr>sink_slot := j, sink_tracking := (sink_tracking s)(k := - 1)\<rparr>)"
  unfolding fresh_ids_def by auto

lemma fresh_assign:
  assumes "fresh_ids c s"
  shows "fresh_ids (Suc c)
           (s\<lparr>sink_slot := j, sink_tracking := (sink_tracking s)(k0 := int c + 1)\<rparr>)"
proof -
  let ?t = "sink_tracking s"
  from assms have A: "\<And>k. ?t k \<noteq> - 1 \<Longrightarrow> 1 \<le> ?t k \<and> ?t k \<le> int c"
    and B: "\<And>j k. j \<noteq> k \<Longrightarrow> ?t j \<noteq> - 1 \<Longrightarrow> ?t j \<noteq> ?t k"
    unfolding fresh_ids_def by blast+
  have A': "1 \<le> (?t(k0 := int c + 1)) k \<and> (?t(k0 := int c + 1)) k \<le> int (Suc c)"
    if "(?t(k0 := int c + 1)) k \<noteq> - 1" for k
  proof (cases "k = k0")
    case True
    then show ?thesis by simp
  next
    case False
    with that A[of k] show ?thesis by simp
  qed
  have B': "(?t(k0 := int c + 1)) i \<noteq> (?t(k0 := int c + 1)) k"
    if "i \<noteq> k" and "(?t(k0 := int c + 1)) i \<noteq> - 1" for i k
  proof (cases "i = k0")
    case True
    with that(1) have "k \<noteq> k0" by simp
    with True A[of k] show ?thesis by (cases "?t k = - 1") simp_all
  next
    case False
    note ni = this
    with that(2) have ti: "?t i \<noteq> - 1" by simp
    show ?thesis
    proof (cases "k = k0")
      case True
      with ni A[OF ti] show ?thesis by simp
    next
      case False
      with ni B[OF that(1) ti] show ?thesis by simp
    qed
  qed
  show ?thesis
    unfolding fresh_ids_def using A' B' by simp
qed

lemma fresh_slot: "fresh_ids c (s\<lparr>sink_slot := j\<rparr>) = fresh_ids c s"
  by (simp add: fresh_ids_def)


lemma pass_step:
  assumes n8: "n \<le> 8" and m: "m < n"
    and cp: "coupled n m su (prev_slots_used fd) s"
    and cn: "unat (next_tracking_id fd) = c mod 65534 + 1"
    and fr: "c \<le> 65534 \<longrightarrow> fresh_ids c s"
    and ef: "emit_finger sx sy bytes m fd su = (fd', su', calls)"
  shows "ids_stable s calls \<and>
         coupled n (Suc m) su' (prev_slots_used fd) (foldl mt_sink_call s calls) \<and>
         unat (next_tracking_id fd') = (c + length (allocated_ids calls)) mod 65534 + 1 \<and>
         (c + length (allocated_ids calls) \<le> 65534 \<longrightarrow>
            fresh_ids (c + length (allocated_ids calls)) (foldl mt_sink_call s calls) \<and>
            ids_unique n s calls)"
proof -
  from n8 m have m8: "m < 8" by simp
  show ?thesis
  proof (cases "sentinel_rec bytes m")
    case True
    with ef have eq: "fd' = fd" "su' = su"
      and calls: "calls = [Input_Mt_Slot (int m), Input_Event EV_ABS ABS_MT_TRACKING_ID (- 1)]"
      by (simp_all add: emit_finger_sentinel)
    let ?s' = "s\<lparr>sink_slot := int m, sink_tracking := (sink_tracking s)(int m := - 1)\<rparr>"
    have s': "foldl mt_sink_call s calls = ?s'"
      unfolding calls by (simp add: mt_sink_call_def tracking_id_of_def)
    have al: "length (allocated_ids calls) = 0"
      unfolding calls by (simp add: tracking_id_of_def)
    have st: "ids_stable s calls"
      unfolding calls by (simp add: tracking_id_of_def mt_sink_call_def)
    have c2: "coupled n (Suc m) su (prev_slots_used fd) ?s'"
      by (rule coupled_release[OF cp])
    have u2: "fresh_ids c ?s' \<and> ids_unique n s calls" if f: "fresh_ids c s"
    proof -
      have f2: "fresh_ids c ?s'" by (rule fresh_release[OF f])
      from fresh_distinct[OF f, of n] fresh_distinct[OF f2, of n] f2 show ?thesis
        unfolding calls by (simp add: mt_sink_call_def tracking_id_of_def)
    qed
    from st c2 cn fr u2 show ?thesis
      unfolding s' al eq by simp
  next
    case False
    note contact = emit_finger_contact[OF False, of sx sy fd su]
    show ?thesis
    proof (cases "bit (prev_slots_used fd) m")
      case True
      with ef contact have eq: "fd' = fd" "su' = su OR push_bit m 1"
        and calls: "calls = [Input_Mt_Slot (int m),
           Input_Event EV_ABS ABS_MT_POSITION_X
             (if sx then uint (x_size (tp_info fd)) - rec_x_pos bytes m else rec_x_pos bytes m),
           Input_Event EV_ABS ABS_MT_POSITION_Y
             (if sy then uint (y_size (tp_info fd)) - rec_y_pos bytes m else rec_y_pos bytes m),
           Input_Event EV_ABS ABS_MT_PRESSURE (rec_pressure bytes m)]"
        by (simp_all add: and_slot_mask and_slot_mask2)
      let ?s' = "s\<lparr>sink_slot := int m\<rparr>"
      have s': "foldl mt_sink_call s calls = ?s'"
        unfolding calls by (simp add: mt_sink_call_def tracking_id_of_def)
      have al: "length (allocated_ids calls) = 0"
        unfolding calls by (simp add: tracking_id_of_def)
      have st: "ids_stable s calls"
        unfolding calls by (simp add: tracking_id_of_def mt_sink_call_def)
      have c2: "coupled n (Suc m) (su OR push_bit m 1) (prev_slots_used fd) ?s'"
        by (rule coupled_keep[OF cp m8])
      have u2: "fresh_ids c ?s' \<and> ids_unique n s calls" if f: "fresh_ids c s"
      proof -
        from fresh_distinct[OF f, of n] f show ?thesis
          unfolding calls by (simp add: mt_sink_call_def tracking_id_of_def fresh_slot)
      qed
      from st c2 cn fr u2 show ?thesis
        unfolding s' al eq by simp
    next
      case False
      note new = this
      with ef contact have eq: "fd' = fd\<lparr>next_tracking_id := next_id (next_tracking_id fd)\<rparr>"
        "su' = su OR push_bit m 1"
        and calls: "calls = [Input_Mt_Slot (int m),
           Input_Event EV_ABS ABS_MT_TRACKING_ID (uint (next_tracking_id fd)),
           Input_Event EV_ABS ABS_MT_POSITION_X
             (if sx then uint (x_size (tp_info fd)) - rec_x_pos bytes m else rec_x_pos bytes m),
           Input_Event EV_ABS ABS_MT_POSITION_Y
             (if sy then uint (y_size (tp_info fd)) - rec_y_pos bytes m else rec_y_pos bytes m),
           Input_Event EV_ABS ABS_MT_PRESSURE (rec_pressure bytes m)]"
        by (simp_all add: and_slot_mask and_slot_mask2)
      let ?v = "uint (next_tracking_id fd)"
      let ?s' = "s\<lparr>sink_slot := int m, sink_tracking := (sink_tracking s)(int m := ?v)\<rparr>"
      have vpos: "?v \<noteq> - 1" using uint_ge_0[of "next_tracking_id fd"] by linarith
      have s': "foldl mt_sink_call s calls = ?s'"
        unfolding calls by (simp add: mt_sink_call_def tracking_id_of_def)
      have al: "length (allocated_ids calls) = 1"
        unfolding calls using vpos by (simp add: tracking_id_of_def)
      have free: "sink_tracking s (int m) = - 1"
        by (rule coupled_free[OF cp new])
      have st: "ids_stable s calls"
        unfolding calls using free by (simp add: tracking_id_of_def mt_sink_call_def)
      have c2: "coupled n (Suc m) (su OR push_bit m 1) (prev_slots_used fd) ?s'"
        by (rule coupled_assign[OF cp m m8])
      have cn2: "unat (next_tracking_id fd') = (c + 1) mod 65534 + 1"
        unfolding eq using unat_next_id[OF cn] by simp
      have u2: "fresh_ids (c + 1) ?s' \<and> ids_unique n s calls" if le: "c + 1 \<le> 65534"
      proof -
        from le fr have f: "fresh_ids c s" by simp
        from le have "c mod 65534 = c" by simp
        with cn have "unat (next_tracking_id fd) = c + 1" by simp
        then have v: "?v = int c + 1" by (simp add: uint_nat)
        have f2: "fresh_ids (Suc c) ?s'"
          unfolding v by (rule fresh_assign[OF f])
        from fresh_distinct[OF f, of n] fresh_distinct[OF f2, of n] f2 show ?thesis
          unfolding calls by (simp add: mt_sink_call_def tracking_id_of_def)
      qed
      from st c2 cn2 u2 show ?thesis
        unfolding s' al eq(2) by simp
    qed
  qed
qed


lemma loop_steps:
  assumes n8: "n \<le> 8"
    and cp: "coupled n 0 0 (prev_slots_used fd) s"
    and cn: "unat (next_tracking_id fd) = c mod 65534 + 1"
    and fr: "c \<le> 65534 \<longrightarrow> fresh_ids c s"
  shows "m \<le> n \<Longrightarrow> emit_fingers_loop sx sy bytes m fd = (fd', su, out) \<Longrightarrow>
         ids_stable s out \<and>
         coupled n m su (prev_slots_used fd) (foldl mt_sink_call s out) \<and>
         unat (next_tracking_id fd') = (c + length (allocated_ids out)) mod 65534 + 1 \<and>
         (c + length (allocated_ids out) \<le> 65534 \<longrightarrow>
            fresh_ids (c + length (allocated_ids out)) (foldl mt_sink_call s out) \<and>
            ids_unique n s out)"
proof (induction m arbitrary: fd' su out)
  case 0
  then have eq: "fd' = fd" "su = 0" "out = []" by simp_all
  from cp cn fr show ?case
    unfolding eq by (auto dest: fresh_distinct)
next
  case (Suc m)
  obtain fd1 su1 out1 where l: "emit_fingers_loop sx sy bytes m fd = (fd1, su1, out1)"
    by (cases "emit_fingers_loop sx sy bytes m fd") auto
  obtain fd2 su2 calls where f: "emit_finger sx sy bytes m fd1 su1 = (fd2, su2, calls)"
    by (cases "emit_finger sx sy bytes m fd1 su1") auto
  from Suc.prems(2) l f have eq: "fd' = fd2" "su = su2" "out = out1 @ calls" by simp_all
  from Suc.prems(1) have mn: "m \<le> n" "m < n" by simp_all
  let ?s1 = "foldl mt_sink_call s out1"
  let ?c1 = "c + length (allocated_ids out1)"
  from Suc.IH[OF mn(1) l] have
    st1: "ids_stable s out1" and
    cp1: "coupled n m su1 (prev_slots_used fd) ?s1" and
    cn1: "unat (next_tracking_id fd1) = ?c1 mod 65534 + 1" and
    fr1: "?c1 \<le> 65534 \<longrightarrow> fresh_ids ?c1 ?s1 \<and> ids_unique n s out1"
    by blast+
  from loop_fd[OF l] have prev1: "prev_slots_used fd1 = prev_slots_used fd" by simp
  from fr1 have fr1': "?c1 \<le> 65534 \<longrightarrow> fresh_ids ?c1 ?s1" by blast
  from pass_step[OF n8 mn(2) cp1[folded prev1] cn1 fr1' f] have
    st2: "ids_stable ?s1 calls" and
    cp2: "coupled n (Suc m) su2 (prev_slots_used fd1) (foldl mt_sink_call ?s1 calls)" and
    cn2: "unat (next_tracking_id fd2) = (?c1 + length (allocated_ids calls)) mod 65534 + 1" and
    fr2: "?c1 + length (allocated_ids calls) \<le> 65534 \<longrightarrow>
            fresh_ids (?c1 + length (allocated_ids calls)) (foldl mt_sink_call ?s1 calls) \<and>
            ids_unique n ?s1 calls"
    by blast+
  have len: "c + length (allocated_ids (out1 @ calls)) = ?c1 + length (allocated_ids calls)"
    by (simp add: allocated_ids_append)
  have a: "ids_stable s (out1 @ calls)"
    using st1 st2 by (simp add: ids_stable_append)
  have b: "coupled n (Suc m) su2 (prev_slots_used fd) (foldl mt_sink_call s (out1 @ calls))"
    using cp2 by (simp add: prev1)
  have d: "fresh_ids (?c1 + length (allocated_ids calls)) (foldl mt_sink_call s (out1 @ calls)) \<and>
           ids_unique n s (out1 @ calls)"
    if "?c1 + length (allocated_ids calls) \<le> 65534"
  proof -
    from that have "?c1 \<le> 65534" by simp
    with fr1 fr2 that show ?thesis by (simp add: ids_unique_append)
  qed
  from a b cn2 d show ?case
    unfolding eq len by blast
qed

lemma sink_keys:
  "\<forall>c \<in> set ks. \<exists>code v. c = Input_Event EV_KEY code v \<Longrightarrow>
   foldl mt_sink_call s ks = s \<and> ids_stable s ks \<and> allocated_ids ks = [] \<and>
   ids_unique n s ks = distinct (active_ids n s)"
  by (induction ks) (auto simp add: mt_sink_call_def tracking_id_of_def)

lemma frame_step:
  assumes n8: "unat (max_fingers (tp_info fd)) \<le> 8"
    and cp: "coupled (unat (max_fingers (tp_info fd))) 0 0 (prev_slots_used fd) s"
    and cn: "unat (next_tracking_id fd) = c mod 65534 + 1"
    and fr: "c \<le> 65534 \<longrightarrow> fresh_ids c s"
    and ef: "emit_fingers fd bytes = Inr (fd', out)"
  shows "tp_info fd' = tp_info fd \<and>
         ids_stable s out \<and>
         coupled (unat (max_fingers (tp_info fd))) 0 0 (prev_slots_used fd')
           (foldl mt_sink_call s out) \<and>
         unat (next_tracking_id fd') = (c + length (allocated_ids out)) mod 65534 + 1 \<and>
         (c + length (allocated_ids out) \<le> 65534 \<longrightarrow>
            fresh_ids (c + length (allocated_ids out)) (foldl mt_sink_call s out) \<and>
            ids_unique (unat (max_fingers (tp_info fd))) s out)"
proof -
  let ?n = "unat (max_fingers (tp_info fd))"
  from ef obtain fd1 su out1 where
    l: "emit_fingers_loop
       (origin_position (tp_info fd) = ORIGIN_LOWER_RIGHT \<or>
        origin_position (tp_info fd) = ORIGIN_UPPER_RIGHT)
       (origin_position (tp_info fd) = ORIGIN_LOWER_LEFT \<or>
        origin_position (tp_info fd) = ORIGIN_LOWER_RIGHT)
       bytes ?n fd = (fd1, su, out1)"
    and fd': "fd' = fd1\<lparr>prev_slots_used := su\<rparr>"
    and out: "out = out1 @
           [Input_Event EV_KEY BTN_TOOL_FINGER (if su = 1 then 1 else 0),
            Input_Event EV_KEY BTN_TOOL_DOUBLETAP (if su = 2 then 1 else 0),
            Input_Event EV_KEY BTN_TOOL_TRIPLETAP (if su = 3 then 1 else 0),
            Input_Event EV_KEY BTN_TOOL_QUADTAP (if su = 4 then 1 else 0)]"
    by (rule emit_fingers_Inr)
  let ?keys = "[Input_Event EV_KEY BTN_TOOL_FINGER (if su = 1 then 1 else 0),
            Input_Event EV_KEY BTN_TOOL_DOUBLETAP (if su = 2 then 1 else 0),
            Input_Event EV_KEY BTN_TOOL_TRIPLETAP (if su = 3 then 1 else 0),
            Input_Event EV_KEY BTN_TOOL_QUADTAP (if su = 4 then 1 else 0)]"
  let ?s1 = "foldl mt_sink_call s out1"
  have keys: "\<forall>c \<in> set ?keys. \<exists>code v. c = Input_Event EV_KEY code v" by simp
  note k = sink_keys[OF keys]
  from loop_steps[OF n8 cp cn fr le_refl l] have
    st1: "ids_stable s out1" and
    cp1: "coupled ?n ?n su (prev_slots_used fd) ?s1" and
    cn1: "unat (next_tracking_id fd1) = (c + length (allocated_ids out1)) mod 65534 + 1" and
    fr1: "c + length (allocated_ids out1) \<le> 65534 \<longrightarrow>
            fresh_ids (c + length (allocated_ids out1)) ?s1 \<and> ids_unique ?n s out1"
    by blast+
  have s': "foldl mt_sink_call s out = ?s1"
    unfolding out using k[of ?s1] by simp
  have al: "allocated_ids out = allocated_ids out1"
    unfolding out using k[of ?s1] by (simp add: allocated_ids_append)
  have a: "tp_info fd' = tp_info fd" using loop_fd[OF l] by (simp add: fd')
  have b: "ids_stable s out"
    unfolding out using st1 k[of ?s1] by (simp add: ids_stable_append)
  have c: "coupled ?n 0 0 (prev_slots_used fd') ?s1"
    using cp1 unfolding coupled_def fd' by auto
  have d: "unat (next_tracking_id fd') = (c + length (allocated_ids out1)) mod 65534 + 1"
    using cn1 by (simp add: fd')
  have e: "fresh_ids (c + length (allocated_ids out1)) ?s1 \<and> ids_unique ?n s out"
    if "c + length (allocated_ids out1) \<le> 65534"
  proof -
    from that fr1 have f: "fresh_ids (c + length (allocated_ids out1)) ?s1"
      and u: "ids_unique ?n s out1" by blast+
    from u fresh_distinct[OF f, of ?n] k[of ?s1 ?n] have "ids_unique ?n s out"
      unfolding out by (simp add: ids_unique_append)
    with f show ?thesis by blast
  qed
  from a b c d e show ?thesis
    unfolding s' al by blast
qed


lemma frames_steps:
  "unat (max_fingers (tp_info fd)) \<le> 8 \<Longrightarrow>
   coupled (unat (max_fingers (tp_info fd))) 0 0 (prev_slots_used fd) s \<Longrightarrow>
   unat (next_tracking_id fd) = c mod 65534 + 1 \<Longrightarrow>
   c \<le> 65534 \<longrightarrow> fresh_ids c s \<Longrightarrow>
   emit_frames fd frames = Inr (fd', out) \<Longrightarrow>
   ids_stable s out \<and>
   (c + length (allocated_ids out) \<le> 65534 \<longrightarrow>
      ids_unique (unat (max_fingers (tp_info fd))) s out)"
proof (induction frames arbitrary: fd s c out)
  case Nil
  then show ?case by (auto dest: fresh_distinct)
next
  case (Cons bytes rest)
  let ?n = "unat (max_fingers (tp_info fd))"
  from Cons.prems(5) obtain fd1 out1 out2 where
    e: "emit_fingers fd bytes = Inr (fd1, out1)" and
    r: "emit_frames fd1 rest = Inr (fd', out2)" and
    out: "out = out1 @ out2"
    by (auto split: sum.splits)
  let ?s1 = "foldl mt_sink_call s out1"
  let ?c1 = "c + length (allocated_ids out1)"
  from frame_step[OF Cons.prems(1,2,3,4) e] have
    info: "tp_info fd1 = tp_info fd" and
    st1: "ids_stable s out1" and
    cp1: "coupled ?n 0 0 (prev_slots_used fd1) ?s1" and
    cn1: "unat (next_tracking_id fd1) = ?c1 mod 65534 + 1" and
    fr1: "?c1 \<le> 65534 \<longrightarrow> fresh_ids ?c1 ?s1 \<and> ids_unique ?n s out1"
    by blast+
  from fr1 have fr1': "?c1 \<le> 65534 \<longrightarrow> fresh_ids ?c1 ?s1" by blast
  from Cons.prems(1) have n1: "unat (max_fingers (tp_info fd1)) \<le> 8" by (simp add: info)
  from cp1 have cp1': "coupled (unat (max_fingers (tp_info fd1))) 0 0 (prev_slots_used fd1) ?s1"
    by (simp add: info)
  from Cons.IH[OF n1 cp1' cn1 fr1' r] have
    st2: "ids_stable ?s1 out2" and
    u2: "?c1 + length (allocated_ids out2) \<le> 65534 \<longrightarrow> ids_unique ?n ?s1 out2"
    by (simp_all add: info)
  have a: "ids_stable s out"
    unfolding out using st1 st2 by (simp add: ids_stable_append)
  have b: "ids_unique ?n s out" if "c + length (allocated_ids out) \<le> 65534"
  proof -
    from that have le2: "?c1 + length (allocated_ids out2) \<le> 65534"
      by (simp add: out allocated_ids_append)
    then have "?c1 \<le> 65534" by simp
    with fr1 u2 le2 show ?thesis
      unfolding out by (simp add: ids_unique_append)
  qed
  from a b show ?case by blast
qed


lemma frames_sink_append:
  "frames_sink fd s (a @ b) =
     (case frames_sink fd s a of Inl e \<Rightarrow> Inl e | Inr (fd1, s1) \<Rightarrow> frames_sink fd1 s1 b)"
  by (induction a arbitrary: fd s) (auto split: sum.splits)

lemma two_fingers: "unat (max_fingers (tp_info (tm_two\<lparr>next_tracking_id := v, prev_slots_used := p\<rparr>))) = Suc (Suc 0)"
  by (simp add: tm_two_def)

lemma first_frame:
  "frames_sink tm_two mt_sink_init [frame_both] =
     Inr (tm_two\<lparr>next_tracking_id := 3, prev_slots_used := 3\<rparr>,
          \<lparr>sink_slot = 1, sink_tracking = (\<lambda>k. - 1)(0 := 1, 1 := 2)\<rparr>)"
proof -
  have n: "unat (max_fingers (tp_info tm_two)) = Suc (Suc 0)" by (simp add: tm_two_def)
  have e: "emit_fingers tm_two frame_both =
     Inr (tm_two\<lparr>next_tracking_id := 3, prev_slots_used := 3\<rparr>, frame_both_calls 1 2)"
    unfolding emit_fingers_def Let_def n
    by (simp add: tm_two_def tm_probe_def frame_both_def emit_finger_def Let_def
        frame_both_calls_def
        ORIGIN_LOWER_RIGHT_def ORIGIN_UPPER_RIGHT_def ORIGIN_LOWER_LEFT_def)
  show ?thesis
    by (simp add: e frame_both_calls_def mt_sink_call_def tracking_id_of_def mt_sink_init_def)
qed

lemma pair_step:
  "frames_sink (tm_two\<lparr>next_tracking_id := v, prev_slots_used := 3\<rparr>) s
     [frame_first, frame_both] =
   Inr (tm_two\<lparr>next_tracking_id := next_id v, prev_slots_used := 3\<rparr>,
        s\<lparr>sink_slot := 1, sink_tracking := (sink_tracking s)(1 := uint v)\<rparr>)"
proof -
  have e1: "emit_fingers (tm_two\<lparr>next_tracking_id := v, prev_slots_used := 3\<rparr>) frame_first =
     Inr (tm_two\<lparr>next_tracking_id := v, prev_slots_used := 1\<rparr>,
          [Input_Mt_Slot 0,
           Input_Event EV_ABS ABS_MT_POSITION_X 981,
           Input_Event EV_ABS ABS_MT_POSITION_Y 768,
           Input_Event EV_ABS ABS_MT_PRESSURE 30,
           Input_Mt_Slot 1, Input_Event EV_ABS ABS_MT_TRACKING_ID (- 1),
           Input_Event EV_KEY BTN_TOOL_FINGER 1,
           Input_Event EV_KEY BTN_TOOL_DOUBLETAP 0,
           Input_Event EV_KEY BTN_TOOL_TRIPLETAP 0,
           Input_Event EV_KEY BTN_TOOL_QUADTAP 0])"
    unfolding emit_fingers_def Let_def two_fingers
    by (simp add: tm_two_def tm_probe_def frame_first_def emit_finger_def Let_def
        ORIGIN_LOWER_RIGHT_def ORIGIN_UPPER_RIGHT_def ORIGIN_LOWER_LEFT_def)
  have e2: "emit_fingers (tm_two\<lparr>next_tracking_id := v, prev_slots_used := 1\<rparr>) frame_both =
     Inr (tm_two\<lparr>next_tracking_id := next_id v, prev_slots_used := 3\<rparr>,
          [Input_Mt_Slot 0,
           Input_Event EV_ABS ABS_MT_POSITION_X 981,
           Input_Event EV_ABS ABS_MT_POSITION_Y 768,
           Input_Event EV_ABS ABS_MT_PRESSURE 30,
           Input_Mt_Slot 1, Input_Event EV_ABS ABS_MT_TRACKING_ID (uint v),
           Input_Event EV_ABS ABS_MT_POSITION_X 913,
           Input_Event EV_ABS ABS_MT_POSITION_Y 704,
           Input_Event EV_ABS ABS_MT_PRESSURE 30,
           Input_Event EV_KEY BTN_TOOL_FINGER 0,
           Input_Event EV_KEY BTN_TOOL_DOUBLETAP 0,
           Input_Event EV_KEY BTN_TOOL_TRIPLETAP 1,
           Input_Event EV_KEY BTN_TOOL_QUADTAP 0])"
    unfolding emit_fingers_def Let_def two_fingers
    by (simp add: tm_two_def tm_probe_def frame_both_def emit_finger_def Let_def next_id_def
        ORIGIN_LOWER_RIGHT_def ORIGIN_UPPER_RIGHT_def ORIGIN_LOWER_LEFT_def)
  show ?thesis
    by (simp add: e1 e2 mt_sink_call_def tracking_id_of_def)
qed

lemma of_nat_u16:
  "n < 65536 \<Longrightarrow> unat (of_nat n :: u16) = n"
  by (simp add: unat_of_nat take_bit_nat_eq_self)

lemma next_id_of_nat:
  assumes "n < 65534"
  shows "next_id (of_nat n :: u16) = of_nat (Suc n)"
proof -
  have u: "unat (of_nat (Suc n) :: u16) = Suc n"
    by (rule of_nat_u16) (use assms in simp)
  have ne: "(of_nat (Suc n) :: u16) \<noteq> 0xffff"
  proof
    assume "(of_nat (Suc n) :: u16) = 0xffff"
    then have "unat (of_nat (Suc n) :: u16) = unat (0xffff :: u16)" by (simp only:)
    with u have "Suc n = 65535" by simp
    with assms show False by simp
  qed
  have "(of_nat n :: u16) + 1 = of_nat (Suc n)" by simp
  with ne show ?thesis unfolding next_id_def by (simp only: if_False)
qed


lemma pairs_run:
  "k \<le> 65531 \<Longrightarrow>
   frames_sink (tm_two\<lparr>next_tracking_id := 3, prev_slots_used := 3\<rparr>)
     \<lparr>sink_slot = 1, sink_tracking = (\<lambda>k. - 1)(0 := 1, 1 := 2)\<rparr>
     (concat (replicate k [frame_first, frame_both])) =
   Inr (tm_two\<lparr>next_tracking_id := of_nat (3 + k), prev_slots_used := 3\<rparr>,
        \<lparr>sink_slot = 1, sink_tracking = (\<lambda>k. - 1)(0 := 1, 1 := int (2 + k))\<rparr>)"
proof (induction k)
  case 0
  show ?case by simp
next
  case (Suc k)
  then have k: "k \<le> 65531" and lt: "3 + k < 65534" by simp_all
  have split: "concat (replicate (Suc k) [frame_first, frame_both]) =
        concat (replicate k [frame_first, frame_both]) @ [frame_first, frame_both]"
  proof -
    have "replicate (Suc k) [frame_first, frame_both] =
          replicate k [frame_first, frame_both] @ [[frame_first, frame_both]]"
      by (simp add: replicate_append_same)
    then show ?thesis by (simp only: concat_append concat.simps append_Nil2)
  qed
  have u: "uint (of_nat (3 + k) :: u16) = int (3 + k)"
    using of_nat_u16[of "3 + k"] lt by (simp add: uint_nat)
  let ?fd0 = "tm_two\<lparr>next_tracking_id := 3, prev_slots_used := 3\<rparr>"
  let ?s0 = "\<lparr>sink_slot = 1, sink_tracking = (\<lambda>k. - 1)(0 := 1, 1 := 2)\<rparr>"
  let ?fdk = "tm_two\<lparr>next_tracking_id := of_nat (3 + k), prev_slots_used := 3\<rparr>"
  let ?sk = "\<lparr>sink_slot = 1, sink_tracking = (\<lambda>k. - 1)(0 := 1, 1 := int (2 + k))\<rparr>"
  have "frames_sink ?fd0 ?s0 (concat (replicate (Suc k) [frame_first, frame_both])) =
        (case frames_sink ?fd0 ?s0 (concat (replicate k [frame_first, frame_both])) of
           Inl e \<Rightarrow> Inl e
         | Inr (fd1, s1) \<Rightarrow> frames_sink fd1 s1 [frame_first, frame_both])"
    unfolding split by (rule frames_sink_append)
  also have "\<dots> = frames_sink ?fdk ?sk [frame_first, frame_both]"
    by (simp only: Suc.IH[OF k] sum.case prod.case)
  also have "\<dots> = Inr (tm_two\<lparr>next_tracking_id := next_id (of_nat (3 + k)), prev_slots_used := 3\<rparr>,
        ?sk\<lparr>sink_slot := 1, sink_tracking := (sink_tracking ?sk)(1 := uint (of_nat (3 + k) :: u16))\<rparr>)"
    by (rule pair_step)
  also have "\<dots> = Inr (tm_two\<lparr>next_tracking_id := of_nat (3 + Suc k), prev_slots_used := 3\<rparr>,
        \<lparr>sink_slot = 1, sink_tracking = (\<lambda>k. - 1)(0 := 1, 1 := int (2 + Suc k))\<rparr>)"
    unfolding next_id_of_nat[OF lt] u by simp
  finally show ?case .
qed

lemma wrap_split:
  "wrap_frames = [frame_both] @ concat (replicate 65531 [frame_first, frame_both]) @
     [frame_first, frame_both] @ [frame_first, frame_both]"
proof -
  have "(65533::nat) = 65531 + 2" by simp
  then have "replicate 65533 [frame_first, frame_both] =
        replicate 65531 [frame_first, frame_both] @ replicate 2 [frame_first, frame_both]"
    by (simp only: replicate_add)
  then show ?thesis
    by (simp add: wrap_frames_def numeral_2_eq_2)
qed

text \<open>
  The long session on the two-finger mouse: both fingers go down (slot 0 gets id
  1, slot 1 gets id 2), then the second finger is lifted and put down again 65533
  times while the first stays. The counter passes 0xFFFE and starts again at 1.
\<close>

lemma wrap_run:
  "frames_active_ids tm_two wrap_frames = Inr [1, 1]"
proof -
  have l: "(65531::nat) \<le> 65531" by simp
  have a: "(of_nat (3 + 65531) :: u16) = 0xFFFE" by simp
  have n1: "next_id (0xFFFE :: u16) = 1" by (simp add: next_id_def)
  have n2: "next_id (1 :: u16) = 2" by (simp add: next_id_def)
  let ?p = "[frame_first, frame_both]"
  let ?fd0 = "tm_two\<lparr>next_tracking_id := 3, prev_slots_used := 3\<rparr>"
  let ?s0 = "\<lparr>sink_slot = 1, sink_tracking = (\<lambda>k. - 1)(0 := 1, 1 := 2)\<rparr>"
  let ?s1 = "\<lparr>sink_slot = 1, sink_tracking = (\<lambda>k. - 1)(0 := 1, 1 := int (2 + 65531))\<rparr>"
  let ?s2 = "?s1\<lparr>sink_slot := 1, sink_tracking := (sink_tracking ?s1)(1 := uint (0xFFFE :: u16))\<rparr>"
  have "frames_sink tm_two mt_sink_init wrap_frames =
        (case frames_sink tm_two mt_sink_init [frame_both] of
           Inl e \<Rightarrow> Inl e
         | Inr (fd1, s1) \<Rightarrow>
             frames_sink fd1 s1 (concat (replicate 65531 ?p) @ ?p @ ?p))"
    unfolding wrap_split by (rule frames_sink_append)
  also have "\<dots> = frames_sink ?fd0 ?s0 (concat (replicate 65531 ?p) @ ?p @ ?p)"
    by (simp only: first_frame sum.case prod.case)
  also have "\<dots> = (case frames_sink ?fd0 ?s0 (concat (replicate 65531 ?p)) of
           Inl e \<Rightarrow> Inl e
         | Inr (fd1, s1) \<Rightarrow> frames_sink fd1 s1 (?p @ ?p))"
    by (rule frames_sink_append)
  also have "\<dots> = frames_sink (tm_two\<lparr>next_tracking_id := of_nat (3 + 65531), prev_slots_used := 3\<rparr>)
                       ?s1 (?p @ ?p)"
    by (simp only: pairs_run[OF l] sum.case prod.case)
  also have "\<dots> = frames_sink (tm_two\<lparr>next_tracking_id := 0xFFFE, prev_slots_used := 3\<rparr>) ?s1 (?p @ ?p)"
    by (simp only: a)
  also have "\<dots> = (case frames_sink (tm_two\<lparr>next_tracking_id := 0xFFFE, prev_slots_used := 3\<rparr>) ?s1 ?p of
           Inl e \<Rightarrow> Inl e
         | Inr (fd1, s1) \<Rightarrow> frames_sink fd1 s1 ?p)"
    by (rule frames_sink_append)
  also have "\<dots> = frames_sink (tm_two\<lparr>next_tracking_id := 1, prev_slots_used := 3\<rparr>) ?s2 ?p"
    by (simp only: pair_step n1 sum.case prod.case)
  also have "\<dots> = Inr (tm_two\<lparr>next_tracking_id := next_id 1, prev_slots_used := 3\<rparr>,
        ?s2\<lparr>sink_slot := 1, sink_tracking := (sink_tracking ?s2)(1 := uint (1 :: u16))\<rparr>)"
    by (rule pair_step)
  also have "\<dots> = Inr (tm_two\<lparr>next_tracking_id := 2, prev_slots_used := 3\<rparr>,
          \<lparr>sink_slot = 1, sink_tracking = (\<lambda>k. - 1)(0 := 1, 1 := 1)\<rparr>)"
    unfolding n2 by simp
  finally have run: "frames_sink tm_two mt_sink_init wrap_frames =
     Inr (tm_two\<lparr>next_tracking_id := 2, prev_slots_used := 3\<rparr>,
          \<lparr>sink_slot = 1, sink_tracking = (\<lambda>k. - 1)(0 := 1, 1 := 1)\<rparr>)" .
  have n: "unat (max_fingers (tp_info tm_two)) = Suc (Suc 0)" by (simp add: tm_two_def)
  show ?thesis
    unfolding frames_active_ids_def run n
    by (simp add: active_ids_def)
qed


text \<open>
  C1, as stated, fails in both parts. Uniqueness: at the end of the long session
  on the two-finger mouse, from the state after \<open>tm_probe\<close>, both slots have a
  contact and both carry the tracking id 1. Stability: \<open>slot_mask\<close> is a \<open>u8\<close>
  and is \<open>(u8)(1 << 8) = 0\<close> for slot 8, so on a device that announces nine
  fingers, with all nine slots touched in two frames in a row, slot 8 is given a
  new tracking id in the second frame while it still holds the first.
\<close>

theorem tracking_id_shared_or_renewed:
  "frames_active_ids tm_two wrap_frames = Inr [1, 1] \<and>
   frames_ids_stable tm_nine [frame_nine, frame_nine] = Inr False"
proof -
  have "frames_ids_stable tm_nine [frame_nine, frame_nine] = Inr False"
    by code_simp
  with wrap_run show ?thesis by simp
qed

text \<open>
  C1, amended. From the state after \<open>tm_probe\<close> (no slot used, counter at 1), on a
  device of at most 8 fingers (the width of the slot masks), every sequence of
  raw-touch frames that hold a record for every slot of the device
  (\<open>4 * max_fingers\<close> bytes each) is processed to the end, and in its calls: a
  tracking id is only ever given to a slot that has none at that moment, so a slot
  keeps its id, with no new tracking-id event, until a "no contact" event releases
  it; and as long as the counter has not wrapped (at most 0xFFFE ids given out
  since the start), at every moment of the call sequence no two slots with a
  contact carry the same tracking id.
\<close>

theorem tracking_ids_stable_and_unique_before_wrap:
  assumes "prev_slots_used fd = 0" and "next_tracking_id fd = 1"
    and "max_fingers (tp_info fd) \<le> 8"
    and "\<forall>frame \<in> set frames. 4 * unat (max_fingers (tp_info fd)) \<le> length frame"
  shows "\<exists>fd' out. emit_frames fd frames = Inr (fd', out) \<and>
           ids_stable mt_sink_init out \<and>
           (length (allocated_ids out) \<le> 65534 \<longrightarrow>
              ids_unique (unat (max_fingers (tp_info fd))) mt_sink_init out)"
proof -
  have n8: "unat (max_fingers (tp_info fd)) \<le> 8"
    using assms(3) by (simp add: word_le_nat_alt)
  then have n32: "unat (max_fingers (tp_info fd)) \<le> 32" by simp
  from emit_frames_succeeds[OF n32 assms(4)] obtain fd' out where
    e: "emit_frames fd frames = Inr (fd', out)" by blast
  have cp: "coupled (unat (max_fingers (tp_info fd))) 0 0 (prev_slots_used fd) mt_sink_init"
    by (simp add: coupled_def mt_sink_init_def)
  have cn: "unat (next_tracking_id fd) = 0 mod 65534 + 1"
    by (simp add: assms(2))
  have fr: "(0::nat) \<le> 65534 \<longrightarrow> fresh_ids 0 mt_sink_init"
    by (simp add: fresh_ids_def mt_sink_init_def)
  from frames_steps[OF n8 cp cn fr e] e show ?thesis by auto
qed


lemma emit_both_first:
  "emit_fingers tm_two frame_both =
     Inr (tm_two\<lparr>next_tracking_id := 3, prev_slots_used := 3\<rparr>, frame_both_calls 1 2)"
  by code_simp

theorem tracking_ids_stable_and_unique_before_wrap_witness:
  "prev_slots_used tm_two = 0 \<and> next_tracking_id tm_two = 1 \<and>
   max_fingers (tp_info tm_two) \<le> 8 \<and>
   4 * unat (max_fingers (tp_info tm_two)) \<le> length frame_both \<and>
   emit_frames tm_two [frame_both] =
     Inr (tm_two\<lparr>next_tracking_id := 3, prev_slots_used := 3\<rparr>, frame_both_calls 1 2) \<and>
   length (allocated_ids (frame_both_calls 1 2)) \<le> 65534 \<and>
   ids_stable mt_sink_init (frame_both_calls 1 2) \<and>
   ids_unique (unat (max_fingers (tp_info tm_two))) mt_sink_init (frame_both_calls 1 2)"
proof -
  have h1: "prev_slots_used tm_two = 0" by (simp add: tm_two_def tm_probe_def)
  have h2: "next_tracking_id tm_two = 1" by (simp add: tm_two_def tm_probe_def)
  have h3: "max_fingers (tp_info tm_two) \<le> 8" by (simp add: tm_two_def)
  have len: "4 * unat (max_fingers (tp_info tm_two)) \<le> length frame_both"
    by (simp add: tm_two_def frame_both_def)
  from len have wf: "\<forall>frame \<in> set [frame_both].
      4 * unat (max_fingers (tp_info tm_two)) \<le> length frame" by simp
  have h4: "emit_frames tm_two [frame_both] =
     Inr (tm_two\<lparr>next_tracking_id := 3, prev_slots_used := 3\<rparr>, frame_both_calls 1 2)"
    by (simp add: emit_both_first)
  have h5: "length (allocated_ids (frame_both_calls 1 2)) \<le> 65534"
    by (simp add: frame_both_calls_def tracking_id_of_def)
  from tracking_ids_stable_and_unique_before_wrap[OF h1 h2 h3 wf] obtain fd' out where
    e: "emit_frames tm_two [frame_both] = Inr (fd', out)" and
    c: "ids_stable mt_sink_init out"
       "length (allocated_ids out) \<le> 65534 \<longrightarrow>
          ids_unique (unat (max_fingers (tp_info tm_two))) mt_sink_init out"
    by blast
  from e h4 have o: "out = frame_both_calls 1 2" by simp
  from c h5 have c': "ids_stable mt_sink_init (frame_both_calls 1 2)"
    "ids_unique (unat (max_fingers (tp_info tm_two))) mt_sink_init (frame_both_calls 1 2)"
    unfolding o by blast+
  from h1 h2 h3 len h4 h5 c' show ?thesis by blast
qed

end
